theory Spec2Isabelle
  imports Complex_Main "HOL-Library.Word"
begin

unbundle bit_operations_syntax

section \<open>Configuration constants\<close>

text \<open>
  The \<^verbatim>\<open>#define\<close>s shared by \<^verbatim>\<open>EfergyRPI_001.c\<close> (lines 35--41) and
  \<^verbatim>\<open>EfergyRPI_log.c\<close> (lines 95--107), and those of the analysis mode
  (\<^verbatim>\<open>EfergyRPI_log.c\<close>, lines 141--146).
\<close>

definition VOLTAGE :: int where "VOLTAGE = 240"
definition CENTERSAMP :: int where "CENTERSAMP = 100"
definition PREAMBLE_COUNT :: int where "PREAMBLE_COUNT = 40"
definition MINLOWBIT :: int where "MINLOWBIT = 3"
definition MINHIGHBIT :: int where "MINHIGHBIT = 8"
definition E2BYTECOUNT :: int where "E2BYTECOUNT = 8"
definition FRAMEBITCOUNT :: int where "FRAMEBITCOUNT = E2BYTECOUNT * 8"

definition MIN_POSITIVE_PREAMBLE_SAMPLES :: int where "MIN_POSITIVE_PREAMBLE_SAMPLES = 40"
definition MIN_NEGATIVE_PREAMBLE_SAMPLES :: int where "MIN_NEGATIVE_PREAMBLE_SAMPLES = 40"
definition ANALYZEBYTECOUNT :: nat where "ANALYZEBYTECOUNT = 9"
definition ANALYZEBITCOUNT :: nat where "ANALYZEBITCOUNT = ANALYZEBYTECOUNT * 8"
definition SAMPLES_PER_BIT :: nat where "SAMPLES_PER_BIT = 19"
definition SAMPLE_STORE_SIZE :: nat where "SAMPLE_STORE_SIZE = ANALYZEBITCOUNT * SAMPLES_PER_BIT"

section \<open>The sample source\<close>

text \<open>
  Both loops read a sample with
  \<^verbatim>\<open>cursamp = (int16_t) (fgetc(stdin) | fgetc(stdin)<<8)\<close> under
  \<^verbatim>\<open>while( !feof(stdin) )\<close>. \<^verbatim>\<open>fgetc\<close> yields a byte, or \<^verbatim>\<open>EOF\<close> (-1) once the
  input is exhausted, and only such a failed read makes \<^verbatim>\<open>feof\<close> true. So an input of
  \<open>2k\<close> bytes gives \<open>k\<close> samples and one more iteration whose sample is made of two
  \<^verbatim>\<open>EOF\<close>s; an odd input ends with a sample made of its last byte and one \<^verbatim>\<open>EOF\<close>.
  \<open>read_samples\<close> is the sequence of values \<^verbatim>\<open>cursamp\<close> takes (the left operand of
  \<^verbatim>\<open>|\<close> read first), and the loop condition is true exactly while that sequence has
  an element left.
\<close>

definition EOF :: int where "EOF = - 1"

definition int16_t :: "int \<Rightarrow> int" where
  "int16_t v = sint (word_of_int v :: 16 word)"

text \<open>
  The run counters of both loops are C \<^verbatim>\<open>int\<close>s that an input can drive past
  \<open>2^31 - 1\<close>. Signed overflow is undefined in C; the compiled programs wrap around in
  two's complement, and \<open>int32_t\<close> is that wrap-around, applied to the result of each
  such increment (it is \<open>sint\<close> of the 32-bit word, see \<open>int32_t_word\<close> below).
\<close>

definition int32_t :: "int \<Rightarrow> int" where
  "int32_t v = (v + 2147483648) mod 4294967296 - 2147483648"

definition sample_of :: "int \<Rightarrow> int \<Rightarrow> int" where
  "sample_of lo hi = int16_t (lo OR push_bit 8 hi)"

fun read_samples :: "8 word list \<Rightarrow> int list" where
  "read_samples [] = [sample_of EOF EOF]"
| "read_samples [lo] = [sample_of (uint lo) EOF]"
| "read_samples (lo # hi # rest) = sample_of (uint lo) (uint hi) # read_samples rest"

section \<open>Frame validation and power conversion\<close>

text \<open>
  C's \<^verbatim>\<open>/\<close> on integers truncates towards zero; \<^verbatim>\<open>pow(2, e)\<close> with an integer
  exponent of either sign. The power value is a \<^verbatim>\<open>double\<close> in the source and a real
  number here: every intermediate value of the formula is an integer of magnitude below
  \<open>2^24\<close> times a power of two well within the range of a \<^verbatim>\<open>double\<close>, which the
  floating-point operations compute without rounding.
\<close>

definition c_div :: "int \<Rightarrow> int \<Rightarrow> int" where
  "c_div a b = sgn a * sgn b * (\<bar>a\<bar> div \<bar>b\<bar>)"

definition pow :: "real \<Rightarrow> int \<Rightarrow> real" where
  "pow x e = (if 0 \<le> e then x ^ nat e else 1 / x ^ nat (- e))"

text \<open>What the loop prints on standard output (the time stamp of a reading is left out).\<close>

datatype line = Reading real | ChecksumError

text \<open>
  \<^verbatim>\<open>calculate_watts\<close> of \<^verbatim>\<open>EfergyRPI_log.c\<close> (lines 362--411): the bytes are
  \<^verbatim>\<open>unsigned char\<close>, the exponent is cast to \<^verbatim>\<open>signed char\<close>. It returns 1 and prints
  the reading, or returns 0 and prints the checksum message.
\<close>

definition calculate_watts :: "8 word list \<Rightarrow> int \<times> line list" where
  "calculate_watts bytes =
     (let tbyte = foldl (\<lambda>t i. t + bytes ! i) (0 :: 8 word) [0 ..< 7];
          tbyte = tbyte AND 0xff
      in if tbyte = bytes ! 7 then
           (let current_adc = real_of_int (uint (bytes ! 4) * 256 + uint (bytes ! 5));
                result = (real_of_int VOLTAGE * current_adc) / (32768 / pow 2 (sint (bytes ! 6)))
            in (1, [Reading result]))
         else (0, [ChecksumError]))"

text \<open>
  \<^verbatim>\<open>calculate_watts\<close> of \<^verbatim>\<open>EfergyRPI_001.c\<close> (lines 44--85): the bytes are plain
  \<^verbatim>\<open>char\<close>, whose signedness the compiler chooses (the parameter \<open>char_signed\<close>), there
  is no cast on the exponent, and nothing is printed on a mismatch.
\<close>

definition char_value :: "bool \<Rightarrow> 8 word \<Rightarrow> int" where
  "char_value char_signed b = (if char_signed then sint b else uint b)"

definition calculate_watts_001 :: "bool \<Rightarrow> 8 word list \<Rightarrow> int \<times> line list" where
  "calculate_watts_001 char_signed bytes =
     (let tbyte = foldl (\<lambda>t i. t + bytes ! i) (0 :: 8 word) [0 ..< 7];
          tbyte = tbyte AND 0xff
      in if char_value char_signed tbyte = char_value char_signed (bytes ! 7) then
           (let current_adc = real_of_int (char_value char_signed (bytes ! 4) * 256
                                           + char_value char_signed (bytes ! 5));
                result = (real_of_int VOLTAGE * current_adc)
                         / (32768 / pow 2 (char_value char_signed (bytes ! 6)))
            in (1, [Reading result]))
         else (0, []))"

text \<open>
  The validity condition in the words of the specification: the sum of the first seven
  bytes of the frame, modulo 256, equals the eighth byte.
\<close>

definition checksum_ok :: "8 word list \<Rightarrow> bool" where
  "checksum_ok fr \<longleftrightarrow> (\<Sum>i<7. unat (fr ! i)) mod 256 = unat (fr ! 7)"

text \<open>
  The two programs share the decode loop and differ in \<^verbatim>\<open>calculate_watts\<close>:
  \<open>Classic char_signed\<close> is \<^verbatim>\<open>EfergyRPI_001.c\<close> built with a signed or an unsigned
  \<^verbatim>\<open>char\<close>, \<open>Logging\<close> is \<^verbatim>\<open>EfergyRPI_log.c\<close>.
\<close>

datatype variant = Classic bool | Logging

definition watts :: "variant \<Rightarrow> 8 word list \<Rightarrow> int \<times> line list" where
  "watts v bytes =
     (case v of Classic char_signed \<Rightarrow> calculate_watts_001 char_signed bytes
              | Logging \<Rightarrow> calculate_watts bytes)"

section \<open>The primary decode loop\<close>

text \<open>
  The local variables of \<^verbatim>\<open>main\<close> (\<^verbatim>\<open>EfergyRPI_log.c\<close>, lines 416--431; the same in
  \<^verbatim>\<open>EfergyRPI_001.c\<close>, lines 90--105) that live across iterations, and the lines
  printed so far. \<^verbatim>\<open>cursamp\<close> is the argument of each step. The two flags only ever
  hold 0 or 1. The counters are C \<^verbatim>\<open>int\<close>s: the assembly counters are shown to stay
  small, and \<open>hctr\<close>, which counts the samples of a high run of any length, wraps
  around. The standard output is the list \<open>printed\<close>; the copy of each reading that
  \<^verbatim>\<open>EfergyRPI_log.c\<close> appends to its log file is left out.
\<close>

record decoder =
  bytearray :: "8 word list"
  bytedata :: "8 word"
  prvsamp :: int
  hctr :: int
  bitpos :: int
  bytecount :: int
  preamble :: bool
  frame :: bool
  dcenter :: int
  dbit :: int
  center :: int
  printed :: "line list"

text \<open>
  The state before the loop (lines 459--471). \<^verbatim>\<open>bytearray\<close> is an uninitialised local
  array of \<open>E2BYTECOUNT + 1\<close> bytes: its contents are the parameter.
\<close>

definition init :: "8 word list \<Rightarrow> decoder" where
  "init garbage =
     \<lparr>bytearray = garbage, bytedata = 0, prvsamp = 0, hctr = 0, bitpos = 0, bytecount = 0,
      preamble = False, frame = False, dcenter = CENTERSAMP, dbit = 0, center = 0,
      printed = []\<rparr>"

text \<open>The branch \<^verbatim>\<open>if (dcenter > 0)\<close>, lines 482--498.\<close>

definition calibrate :: "decoder \<Rightarrow> int \<Rightarrow> decoder" where
  "calibrate s cursamp =
     (let s1 = s\<lparr>dcenter := dcenter s - 1, center := center s + cursamp\<rparr>
      in if dcenter s1 = 0 then
           s1\<lparr>center := c_div (center s1) CENTERSAMP,
              hctr := 0, bytedata := 0, bytecount := 0, bitpos := 0, dbit := 0,
              preamble := False, frame := False\<rparr>
         else s1)"

text \<open>
  The body of \<^verbatim>\<open>if ((hctr > MINLOWBIT) && (frame == 1))\<close>, lines 519--554: shift one
  bit in, store a full byte, validate a full frame, reset after too many bits.
\<close>

definition assemble :: "variant \<Rightarrow> decoder \<Rightarrow> decoder" where
  "assemble v s =
     (let s1 = s\<lparr>dbit := dbit s + 1, bitpos := bitpos s + 1,
                 bytedata := push_bit 1 (bytedata s)\<rparr>;
          s2 = (if hctr s1 > MINHIGHBIT then s1\<lparr>bytedata := bytedata s1 OR 1\<rparr> else s1);
          s3 = (if bitpos s2 > 7 then
                  (let t1 = s2\<lparr>bytearray := (bytearray s2)[nat (bytecount s2) := bytedata s2],
                               bytedata := 0, bitpos := 0, bytecount := bytecount s2 + 1\<rparr>
                   in if bytecount t1 = E2BYTECOUNT then
                        (case watts v (bytearray t1) of
                           (r, ls) \<Rightarrow>
                             (let t2 = t1\<lparr>printed := printed t1 @ ls\<rparr>
                              in if r = 0 then t2\<lparr>dcenter := CENTERSAMP\<rparr> else t2))
                      else t1)
                else s2)
      in if dbit s3 > FRAMEBITCOUNT then
           s3\<lparr>bitpos := 0, bytecount := 0, dbit := 0, frame := False, preamble := False,
              bytedata := 0\<rparr>
         else s3)"

text \<open>
  The accumulator after the shift and the threshold test (lines 521--523), as a function
  of the state before them: the bit shifted in is 1 exactly if \<open>hctr\<close> exceeds
  \<open>MINHIGHBIT\<close>.
\<close>

definition shifted :: "decoder \<Rightarrow> 8 word" where
  "shifted s = (if hctr s > MINHIGHBIT then push_bit 1 (bytedata s) OR 1
                else push_bit 1 (bytedata s))"

text \<open>The chain of edge cases, lines 503--561.\<close>

definition edge_cases :: "variant \<Rightarrow> decoder \<Rightarrow> int \<Rightarrow> decoder" where
  "edge_cases v s cursamp =
     (if cursamp > center s \<and> prvsamp s < center s then s\<lparr>hctr := 0\<rparr>
      else if cursamp > center s \<and> prvsamp s > center s then
        (let s1 = s\<lparr>hctr := int32_t (hctr s + 1)\<rparr>
         in if hctr s1 > PREAMBLE_COUNT then s1\<lparr>preamble := True\<rparr> else s1)
      else if cursamp < center s \<and> prvsamp s > center s then
        (let s1 = (if hctr s > MINLOWBIT \<and> frame s then assemble v s else s)
         in s1\<lparr>hctr := 0\<rparr>)
      else s\<lparr>hctr := 0\<rparr>)"

text \<open>The end of the preamble, lines 563--568.\<close>

definition handoff :: "decoder \<Rightarrow> decoder" where
  "handoff s = (if hctr s = 0 \<and> preamble s then s\<lparr>preamble := False, frame := True\<rparr> else s)"

text \<open>One iteration of the loop on the sample just read, lines 476--572.\<close>

definition tick :: "variant \<Rightarrow> decoder \<Rightarrow> int \<Rightarrow> decoder" where
  "tick v s cursamp =
     (let s1 = (if dcenter s > 0 then calibrate s cursamp else handoff (edge_cases v s cursamp))
      in s1\<lparr>prvsamp := cursamp\<rparr>)"

text \<open>The loop over the samples read, and the program on its input bytes.\<close>

definition run :: "variant \<Rightarrow> decoder \<Rightarrow> int list \<Rightarrow> decoder" where
  "run v s samples = foldl (tick v) s samples"

definition main :: "variant \<Rightarrow> 8 word list \<Rightarrow> 8 word list \<Rightarrow> decoder" where
  "main v garbage input = run v (init garbage) (read_samples input)"

section \<open>The analysis mode\<close>

text \<open>
  \<^verbatim>\<open>decode_bytes_from_pulse_counts\<close> (\<^verbatim>\<open>EfergyRPI_log.c\<close>, lines 152--181). The list
  is \<^verbatim>\<open>pulse_store[0 .. pulse_store_index - 1]\<close>; the result is the returned byte count
  and the array \<^verbatim>\<open>bytes\<close>. The loop returns early once \<open>ANALYZEBYTECOUNT\<close> bytes are
  full. The local \<^verbatim>\<open>dbit\<close> is only ever incremented and is left out; the other
  locals carry the prefix \<open>a_\<close>.
\<close>

fun decode_loop :: "int list \<Rightarrow> int \<Rightarrow> 8 word \<Rightarrow> nat \<Rightarrow> 8 word list \<Rightarrow> nat \<times> 8 word list" where
  "decode_loop [] a_bitpos a_bytedata a_bytecount bytes = (a_bytecount, bytes)"
| "decode_loop (p # ps) a_bitpos a_bytedata a_bytecount bytes =
     (if p > MINLOWBIT then
        (let a_bitpos1 = a_bitpos + 1;
             a_shifted = push_bit 1 a_bytedata;
             a_bytedata1 = (if p > MINHIGHBIT then a_shifted OR 1 else a_shifted)
         in if a_bitpos1 > 7 then
              (let bytes1 = bytes[a_bytecount := a_bytedata1];
                   a_bytecount1 = a_bytecount + 1
               in if a_bytecount1 = ANALYZEBYTECOUNT then (a_bytecount1, bytes1)
                  else decode_loop ps 0 0 a_bytecount1 bytes1)
            else decode_loop ps a_bitpos1 a_bytedata1 a_bytecount bytes)
      else decode_loop ps a_bitpos a_bytedata a_bytecount bytes)"

definition decode_bytes_from_pulse_counts :: "int list \<Rightarrow> nat \<times> 8 word list" where
  "decode_bytes_from_pulse_counts pulse_store =
     decode_loop pulse_store 0 0 0 (replicate ANALYZEBYTECOUNT 0)"

text \<open>
  \<^verbatim>\<open>display_frame_data\<close> (lines 183--202) prints one line: the message, the bytes in
  hexadecimal, the sum of all bytes but the last, and the power estimate when it lies
  strictly between 0 and 5000. Here the exponent byte is read unsigned.
\<close>

datatype frame_line = FrameLine string "8 word list" "8 word" "real option"

definition display_frame_data :: "string \<Rightarrow> 8 word list \<Rightarrow> nat \<Rightarrow> frame_line" where
  "display_frame_data msg bytes a_bytecount =
     (let tbyte = foldl (\<lambda>t i. t + bytes ! i) (0 :: 8 word) [0 ..< a_bytecount - 1];
          current_adc = real_of_int (uint (bytes ! 4) * 256 + uint (bytes ! 5));
          result = (real_of_int VOLTAGE * current_adc) / (32768 / pow 2 (uint (bytes ! 6)))
      in FrameLine msg (map (\<lambda>i. bytes ! i) [0 ..< a_bytecount]) tbyte
           (if result > 0 \<and> result < 5000 then Some result else None))"

text \<open>
  The globals of the analysis mode (lines 147--150) and the frame lines printed so far.
  The statistics, the raw dump and the pulse listing that the verbosity level adds to the
  output are left out.
\<close>

record analysis =
  sample_storage :: "int list"
  sample_store_index :: nat
  analysis_wavecenter :: int
  shown :: "frame_line list"

text \<open>
  The run-length loop of \<^verbatim>\<open>analyze_efergy_message\<close> (lines 259--290): it appends the
  length of a run of samples at or above the center to \<^verbatim>\<open>pulse_count_storage\<close> when
  a sample below the center ends it, and the length of a run below the center to
  \<^verbatim>\<open>space_count_storage\<close> when a sample at or above the center ends it.
\<close>

fun pulse_loop :: "int \<Rightarrow> int list \<Rightarrow> int \<Rightarrow> int \<Rightarrow> int list \<Rightarrow> int list \<Rightarrow> int list \<times> int list" where
  "pulse_loop wavecenter [] pulse_count space_count pulse_store space_store =
     (pulse_store, space_store)"
| "pulse_loop wavecenter (sample # samples) pulse_count space_count pulse_store space_store =
     (let samplec = sample - wavecenter
      in if samplec < 0 then
           pulse_loop wavecenter samples 0 (space_count + 1)
             (if pulse_count > 0 then pulse_store @ [pulse_count] else pulse_store) space_store
         else
           pulse_loop wavecenter samples (pulse_count + 1) 0 pulse_store
             (if space_count > 0 then space_store @ [space_count] else space_store))"

text \<open>
  \<^verbatim>\<open>analyze_efergy_message\<close> (lines 205--307). The new wave center is computed in
  \<^verbatim>\<open>double\<close> arithmetic from the stored samples (lines 211--227) and converted to
  \<^verbatim>\<open>long\<close> (line 241); that computation is the parameter \<open>estimate\<close>, applied to
  the samples below \<^verbatim>\<open>sample_store_index\<close>.
\<close>

definition analyze_efergy_message :: "(int list \<Rightarrow> int) \<Rightarrow> analysis \<Rightarrow> analysis" where
  "analyze_efergy_message estimate a =
     (let stored = take (sample_store_index a) (sample_storage a);
          a1 = a\<lparr>analysis_wavecenter := estimate stored\<rparr>;
          (pulse_count_storage, space_count_storage) =
             pulse_loop (analysis_wavecenter a1) stored 0 0 [] [];
          shown_line =
            (if sample_storage a1 ! 2 < analysis_wavecenter a1 then
               (case decode_bytes_from_pulse_counts pulse_count_storage of
                  (a_bytecount, a_bytearray) \<Rightarrow>
                    display_frame_data ''Decode from positive pulses: '' a_bytearray a_bytecount)
             else
               (case decode_bytes_from_pulse_counts space_count_storage of
                  (a_bytecount, a_bytearray) \<Rightarrow>
                    display_frame_data ''Decode from negative pulses: '' a_bytearray a_bytecount))
      in a1\<lparr>shown := shown a1 @ [shown_line]\<rparr>)"

text \<open>
  The preamble search of \<^verbatim>\<open>run_in_analysis_mode\<close> (lines 325--344): the result is
  what is left of the samples when the loop ends, by \<^verbatim>\<open>break\<close> or at the end of the
  input.
\<close>

fun find_preamble :: "int \<Rightarrow> int \<Rightarrow> int \<Rightarrow> int \<Rightarrow> int list \<Rightarrow> int list" where
  "find_preamble wavecenter a_prvsamp positive_preamble_count negative_preamble_count [] = []"
| "find_preamble wavecenter a_prvsamp positive_preamble_count negative_preamble_count
     (cursamp # rest) =
     (if a_prvsamp \<ge> wavecenter \<and> cursamp \<ge> wavecenter then
        find_preamble wavecenter cursamp (int32_t (positive_preamble_count + 1))
          negative_preamble_count rest
      else if a_prvsamp < wavecenter \<and> cursamp < wavecenter then
        find_preamble wavecenter cursamp positive_preamble_count
          (int32_t (negative_preamble_count + 1)) rest
      else if a_prvsamp \<ge> wavecenter \<and> cursamp < wavecenter then
        (if positive_preamble_count > MIN_POSITIVE_PREAMBLE_SAMPLES
            \<and> negative_preamble_count > MIN_NEGATIVE_PREAMBLE_SAMPLES
         then rest
         else find_preamble wavecenter cursamp positive_preamble_count 0 rest)
      else if a_prvsamp < wavecenter \<and> cursamp \<ge> wavecenter then
        (if positive_preamble_count > MIN_POSITIVE_PREAMBLE_SAMPLES
            \<and> negative_preamble_count > MIN_NEGATIVE_PREAMBLE_SAMPLES
         then rest
         else find_preamble wavecenter cursamp 0 negative_preamble_count rest)
      else find_preamble wavecenter cursamp positive_preamble_count
             negative_preamble_count rest)"

text \<open>
  The capture loop (lines 347--356): each sample is stored at \<^verbatim>\<open>sample_store_index\<close>;
  the index advances while it is below \<open>SAMPLE_STORE_SIZE - 1\<close>, and the sample stored at
  the last index triggers the analysis and ends the loop.
\<close>

fun capture :: "(int list \<Rightarrow> int) \<Rightarrow> analysis \<Rightarrow> int list \<Rightarrow> analysis \<times> int list" where
  "capture estimate a [] = (a, [])"
| "capture estimate a (cursamp # rest) =
     (let a1 = a\<lparr>sample_storage := (sample_storage a)[sample_store_index a := cursamp]\<rparr>
      in if sample_store_index a1 < SAMPLE_STORE_SIZE - 1 then
           capture estimate (a1\<lparr>sample_store_index := sample_store_index a1 + 1\<rparr>) rest
         else (analyze_efergy_message estimate a1, rest))"

text \<open>One round of the outermost loop (lines 318--357) on a non-empty rest of the input.\<close>

definition analysis_round :: "(int list \<Rightarrow> int) \<Rightarrow> analysis \<Rightarrow> int list \<Rightarrow> analysis \<times> int list" where
  "analysis_round estimate a samples =
     capture estimate (a\<lparr>sample_store_index := 0\<rparr>)
       (find_preamble (analysis_wavecenter a) 0 0 0 samples)"

text \<open>
  The outermost loop of \<^verbatim>\<open>run_in_analysis_mode\<close> (lines 318--357): every round
  consumes at least one sample.
\<close>

function analysis_loop :: "(int list \<Rightarrow> int) \<Rightarrow> analysis \<Rightarrow> int list \<Rightarrow> analysis" where
  "analysis_loop estimate a samples =
     (if samples = [] then a
      else analysis_loop estimate (fst (analysis_round estimate a samples))
             (snd (analysis_round estimate a samples)))"
  by pat_completeness auto
termination
proof (relation "measure (\<lambda>(estimate, a, samples). length samples)")
  show "wf (measure (\<lambda>(estimate :: int list \<Rightarrow> int, a :: analysis, samples :: int list). length samples))"
    by simp
next
  fix estimate :: "int list \<Rightarrow> int" and a :: analysis and samples :: "int list"
  assume nonempty: "samples \<noteq> []"
  have searched: "length (find_preamble wc p m n xs) \<le> length xs" for wc p m n xs
    by (induction xs arbitrary: p m n) (auto simp: le_SucI)
  have captured: "length (snd (capture estimate b xs)) \<le> length xs" for b xs
    by (induction xs arbitrary: b) (auto simp: Let_def le_SucI)
  obtain x xs where samples: "samples = x # xs"
    using nonempty by (cases samples) auto
  have "length (find_preamble (analysis_wavecenter a) 0 0 0 samples) \<le> length xs"
    unfolding samples using searched by auto
  then have "length (snd (analysis_round estimate a samples)) < length samples"
    unfolding analysis_round_def using captured [of "a\<lparr>sample_store_index := 0\<rparr>" "find_preamble (analysis_wavecenter a) 0 0 0 samples"]
    by (simp add: samples)
  then show "((estimate, fst (analysis_round estimate a samples), snd (analysis_round estimate a samples)), (estimate, a, samples))
      \<in> measure (\<lambda>(estimate, a, samples). length samples)"
    by (simp add: case_prod_unfold)
qed

text \<open>
  The globals when the program starts (a global array is zeroed; line 316 sets the center
  to 0), and the analysis mode on the input bytes.
\<close>

definition analysis_start :: analysis where
  "analysis_start =
     \<lparr>sample_storage = replicate SAMPLE_STORE_SIZE 0, sample_store_index = 0,
      analysis_wavecenter = 0, shown = []\<rparr>"

definition run_in_analysis_mode :: "(int list \<Rightarrow> int) \<Rightarrow> 8 word list \<Rightarrow> analysis" where
  "run_in_analysis_mode estimate input =
     analysis_loop estimate analysis_start (read_samples input)"

section \<open>Reachable states\<close>

text \<open>
  The states of the primary loop at the end of an iteration, over every input: the stack
  array holds any nine bytes at the start, and every sample is a 16-bit signed value.
\<close>

inductive reachable :: "variant \<Rightarrow> decoder \<Rightarrow> bool" for v where
  start: "length garbage = 9 \<Longrightarrow> reachable v (init garbage)"
| step: "reachable v s \<Longrightarrow> - 32768 \<le> cursamp \<Longrightarrow> cursamp \<le> 32767
         \<Longrightarrow> reachable v (tick v s cursamp)"

text \<open>
  The facts about the assembly counters that hold in every reachable state (shown below):
  the bit tally is eight times the byte count plus the bit position and never exceeds
  \<open>FRAMEBITCOUNT\<close> at the end of an iteration, and the pulse counter is 0 while
  calibrating.
\<close>

definition framing_inv :: "decoder \<Rightarrow> bool" where
  "framing_inv s \<longleftrightarrow>
     0 \<le> bitpos s \<and> bitpos s \<le> 7 \<and> 0 \<le> bytecount s \<and> bytecount s \<le> E2BYTECOUNT
     \<and> dbit s = 8 * bytecount s + bitpos s \<and> dbit s \<le> FRAMEBITCOUNT
     \<and> 0 \<le> dcenter s \<and> dcenter s \<le> CENTERSAMP
     \<and> (0 < dcenter s \<longrightarrow> hctr s = 0 \<and> \<not> preamble s)
     \<and> length (bytearray s) = 9"

section \<open>The run-length histogram of the specification\<close>

text \<open>
  The run-length histogram in the words of the specification: the lengths of the runs of
  consecutive samples on one side of the center, in order, each recorded when a sample of
  the other side ends it (a run still open at the end of the samples is not recorded).
  \<open>n\<close> is the length of the run in progress.
\<close>

fun run_lengths :: "(int \<Rightarrow> bool) \<Rightarrow> int list \<Rightarrow> int \<Rightarrow> int list" where
  "run_lengths inside [] n = []"
| "run_lengths inside (x # xs) n =
     (if inside x then run_lengths inside xs (n + 1)
      else (if n > 0 then [n] else []) @ run_lengths inside xs 0)"

section \<open>Concrete inputs\<close>

text \<open>
  Sample streams of the primary loop: some contents of the stack array; a warm-up of 100
  samples of value 200 (so the center is 200); a low sample, a preamble of 42 high samples
  and the low sample that ends it; pulses of \<open>n\<close> high samples ended by one low sample.
\<close>

definition stack9 :: "8 word list" where
  "stack9 = replicate 9 0xAA"

definition warmup :: "int list" where
  "warmup = replicate 100 200"

definition preamble_run :: "int list" where
  "preamble_run = [0] @ replicate 42 400 @ [0]"

definition pulse :: "nat \<Rightarrow> int list" where
  "pulse n = replicate n 400 @ [0]"

definition pulses :: "nat \<Rightarrow> nat \<Rightarrow> int list" where
  "pulses k n = concat (replicate k (pulse n))"

text \<open>
  The warm-up and the preamble, after which framing is active; the warm-up, a low sample
  and a high run of \<open>k\<close> samples still in progress; the preamble in progress after its
  42nd high sample; a pulse of five high samples in progress after the preamble (its
  closing sample still to come).
\<close>

definition framing_run :: "int list" where
  "framing_run = warmup @ preamble_run"

definition high_run :: "nat \<Rightarrow> int list" where
  "high_run k = warmup @ [0] @ replicate k 400"

definition preamble_high_run :: "int list" where
  "preamble_high_run = warmup @ [0] @ replicate 42 400"

definition five_high_run :: "int list" where
  "five_high_run = warmup @ preamble_run @ replicate 5 400"

text \<open>
  The samples up to the last high sample of the 64th pulse of a frame: 63 zero bits and
  then a pulse that reads 0 (five high samples) or 1 (ten high samples). With the closing
  low sample the frame is eight zero bytes, whose checksum holds, or seven zero bytes and
  a last byte 1, whose checksum fails. \<open>overflow_run\<close> is the complete valid frame
  followed by five high samples of a 65th pulse.
\<close>

definition valid_frame_run :: "int list" where
  "valid_frame_run = warmup @ preamble_run @ pulses 63 5 @ replicate 5 400"

definition corrupt_frame_run :: "int list" where
  "corrupt_frame_run = warmup @ preamble_run @ pulses 63 5 @ replicate 10 400"

definition overflow_run :: "int list" where
  "overflow_run = valid_frame_run @ [0] @ replicate 5 400"

text \<open>
  A frame whose checksum holds, with the top bit set in byte 4 and in the exponent byte:
  read unsigned, bytes 4 and 5 are 32768; read signed, byte 6 is -1.
\<close>

definition failing_frame :: "8 word list" where
  "failing_frame = [0, 0, 0, 0, 0x80, 0, 0xFF, 0x7F, 0]"

text \<open>
  Inputs of the analysis mode. A frame of nine bytes, its bits most significant first, and
  two sample sequences that encode them: each bit is a run of samples below 0 followed by
  9 (for 1) or 5 (for 0) samples above 0. \<open>example_capture\<close> uses 19 samples for every bit
  and fills the buffer exactly; \<open>compact_capture\<close> uses runs of three low samples.
  \<open>example_preamble\<close> is 45 low and 45 high samples and the low sample after them.
\<close>

definition example_frame :: "8 word list" where
  "example_frame = [0x09, 0x2A, 0x4C, 0x40, 0x05, 0x5A, 0x02, 0x20, 0x00]"

definition byte_bits :: "8 word \<Rightarrow> bool list" where
  "byte_bits w = map (bit w) [7, 6, 5, 4, 3, 2, 1, 0]"

definition pattern :: "nat \<Rightarrow> bool \<Rightarrow> int list" where
  "pattern gap b = replicate gap (- 100) @ replicate (if b then 9 else 5) 100"

definition example_capture :: "int list" where
  "example_capture =
     concat (map (\<lambda>b. pattern (if b then 10 else 14) b) (concat (map byte_bits example_frame)))"

definition compact_capture :: "int list" where
  "compact_capture = concat (map (pattern 3) (concat (map byte_bits example_frame)))"

definition example_preamble :: "int list" where
  "example_preamble = replicate 45 (- 100) @ replicate 45 100 @ [- 100]"

section \<open>Basic facts\<close>

lemmas config_defs =
  VOLTAGE_def CENTERSAMP_def PREAMBLE_COUNT_def MINLOWBIT_def MINHIGHBIT_def
  E2BYTECOUNT_def FRAMEBITCOUNT_def

lemmas analysis_config_defs =
  MIN_POSITIVE_PREAMBLE_SAMPLES_def MIN_NEGATIVE_PREAMBLE_SAMPLES_def ANALYZEBYTECOUNT_def
  ANALYZEBITCOUNT_def SAMPLES_PER_BIT_def SAMPLE_STORE_SIZE_def

subsection \<open>The checksum and the two conversions\<close>

lemma tbyte_loop:
  "foldl (\<lambda>t i. t + f i) (0 :: 8 word) [0 ..< 7] = f 0 + f 1 + f 2 + f 3 + f 4 + f 5 + f 6"
  by (simp add: upt_rec eval_nat_numeral)

lemma mask_low8: "(x :: 8 word) AND 0xff = x"
proof -
  have "(0xff :: 8 word) = - 1" by simp
  then show ?thesis by (simp only: word_and_max)
qed

lemma sum_below_7:
  "(\<Sum>i<7. g i) = g 0 + g 1 + g 2 + g 3 + g 4 + g 5 + g 6" for g :: "nat \<Rightarrow> nat"
  by (simp add: eval_nat_numeral lessThan_Suc)

lemma unat_sum7:
  "unat (a0 + a1 + a2 + a3 + a4 + a5 + a6 :: 8 word)
     = (unat a0 + unat a1 + unat a2 + unat a3 + unat a4 + unat a5 + unat a6) mod 256"
proof -
  have "a0 + a1 + a2 + a3 + a4 + a5 + a6
          = (of_nat (unat a0 + unat a1 + unat a2 + unat a3 + unat a4 + unat a5 + unat a6) :: 8 word)"
    by simp
  then show ?thesis by (simp only: unat_of_nat) simp
qed

lemma tbyte_eq_iff:
  "(foldl (\<lambda>t i. t + bytes ! i) (0 :: 8 word) [0 ..< 7] AND 0xff = bytes ! 7) = checksum_ok bytes"
  unfolding tbyte_loop mask_low8 checksum_ok_def sum_below_7
  by (simp add: word_unat_eq_iff unat_sum7)

lemma char_value_eq_iff: "(char_value sg a = char_value sg b) = (a = b)"
  by (auto simp: char_value_def intro: signed_word_eqI word_uint_eqI)

lemma calculate_watts_cases:
  "calculate_watts bytes =
     (if checksum_ok bytes then
        (1, [Reading (240 * real_of_int (uint (bytes ! 4) * 256 + uint (bytes ! 5))
                       / (32768 / pow 2 (sint (bytes ! 6))))])
      else (0, [ChecksumError]))"
  unfolding calculate_watts_def Let_def tbyte_eq_iff by (simp add: VOLTAGE_def)

lemma calculate_watts_001_cases:
  "calculate_watts_001 sg bytes =
     (if checksum_ok bytes then
        (1, [Reading (240 * real_of_int (char_value sg (bytes ! 4) * 256 + char_value sg (bytes ! 5))
                       / (32768 / pow 2 (char_value sg (bytes ! 6))))])
      else (0, []))"
  unfolding calculate_watts_001_def Let_def char_value_eq_iff tbyte_eq_iff by (simp add: VOLTAGE_def)

lemma watts_valid: "checksum_ok bytes \<Longrightarrow> \<exists>r. watts v bytes = (1, [Reading r])"
proof (cases v)
  case (Classic sg)
  assume "checksum_ok bytes"
  then show ?thesis
    unfolding Classic watts_def variant.case calculate_watts_001_cases by (simp only: if_True) blast
next
  case Logging
  assume "checksum_ok bytes"
  then show ?thesis
    unfolding Logging watts_def variant.case calculate_watts_cases by (simp only: if_True) blast
qed

lemma watts_invalid:
  "\<not> checksum_ok bytes \<Longrightarrow>
     watts v bytes = (0, case v of Classic sg \<Rightarrow> [] | Logging \<Rightarrow> [ChecksumError])"
  by (cases v) (simp_all add: watts_def calculate_watts_cases calculate_watts_001_cases)

subsection \<open>The loop, field by field\<close>

lemma tick_calibrating:
  "0 < dcenter s \<Longrightarrow> tick v s x = (calibrate s x)\<lparr>prvsamp := x\<rparr>"
  by (simp add: tick_def)

lemma tick_decoding:
  "dcenter s \<le> 0 \<Longrightarrow> tick v s x = (handoff (edge_cases v s x))\<lparr>prvsamp := x\<rparr>"
  by (simp add: tick_def)

lemma run_Nil: "run v s [] = s"
  by (simp add: run_def)

lemma run_Cons: "run v s (x # xs) = run v (tick v s x) xs"
  by (simp add: run_def)

lemma run_append: "run v s (xs @ ys) = run v (run v s xs) ys"
  by (simp add: run_def)

lemma run_snoc: "run v s (xs @ [x]) = tick v (run v s xs) x"
  by (simp add: run_def)

lemma run_calibrating:
  "int (length xs) < dcenter s \<Longrightarrow>
     run v s xs = s\<lparr>dcenter := dcenter s - int (length xs),
                    center := center s + sum_list xs,
                    prvsamp := last (prvsamp s # xs)\<rparr>"
proof (induction xs rule: rev_induct)
  case Nil
  then show ?case by (simp add: run_Nil)
next
  case (snoc x xs)
  then show ?case
    by (simp add: run_snoc tick_calibrating calibrate_def Let_def)
qed

lemma run_calibrated:
  assumes "dcenter s = int (length xs)" and "xs \<noteq> []"
  shows "run v s xs =
           s\<lparr>dcenter := 0, center := c_div (center s + sum_list xs) CENTERSAMP,
             hctr := 0, bytedata := 0, bytecount := 0, bitpos := 0, dbit := 0,
             preamble := False, frame := False, prvsamp := last xs\<rparr>"
proof -
  obtain ys y where xs: "xs = ys @ [y]"
    using assms(2) by (cases xs rule: rev_cases) auto
  have "int (length ys) < dcenter s"
    using assms(1) by (simp add: xs)
  then have "run v s ys = s\<lparr>dcenter := dcenter s - int (length ys),
                    center := center s + sum_list ys,
                    prvsamp := last (prvsamp s # ys)\<rparr>"
    by (rule run_calibrating)
  then show ?thesis
    using assms(1) by (simp add: xs run_snoc tick_calibrating calibrate_def Let_def add.assoc)
qed

lemma watts_cases:
  "watts v bytes = (1, snd (watts v bytes)) \<or> watts v bytes = (0, snd (watts v bytes))"
  by (cases v; cases "checksum_ok bytes")
     (simp_all add: watts_def calculate_watts_cases calculate_watts_001_cases)

lemma bytearray_assemble:
  "bytearray (assemble v s) =
     (if bitpos s + 1 > 7 then (bytearray s)[nat (bytecount s) := shifted s] else bytearray s)"
  by (simp add: assemble_def shifted_def Let_def split: prod.splits)

lemma printed_assemble:
  "printed (assemble v s) =
     (if bitpos s + 1 > 7 \<and> bytecount s + 1 = E2BYTECOUNT
      then printed s @ snd (watts v ((bytearray s)[nat (bytecount s) := shifted s]))
      else printed s)"
  by (simp add: assemble_def shifted_def Let_def split: prod.splits)

lemma dcenter_assemble:
  "dcenter (assemble v s) =
     (if bitpos s + 1 > 7 \<and> bytecount s + 1 = E2BYTECOUNT
         \<and> fst (watts v ((bytearray s)[nat (bytecount s) := shifted s])) = 0
      then CENTERSAMP else dcenter s)"
  by (simp add: assemble_def shifted_def Let_def split: prod.splits)

lemma dbit_assemble:
  "dbit (assemble v s) = (if dbit s + 1 > FRAMEBITCOUNT then 0 else dbit s + 1)"
  by (simp add: assemble_def Let_def split: prod.splits)

lemma bitpos_assemble:
  "bitpos (assemble v s) =
     (if dbit s + 1 > FRAMEBITCOUNT \<or> bitpos s + 1 > 7 then 0 else bitpos s + 1)"
  by (simp add: assemble_def Let_def split: prod.splits)

lemma bytecount_assemble:
  "bytecount (assemble v s) =
     (if dbit s + 1 > FRAMEBITCOUNT then 0
      else if bitpos s + 1 > 7 then bytecount s + 1 else bytecount s)"
  by (simp add: assemble_def Let_def split: prod.splits)

lemma bytedata_assemble:
  "bytedata (assemble v s) =
     (if dbit s + 1 > FRAMEBITCOUNT \<or> bitpos s + 1 > 7 then 0 else shifted s)"
  by (simp add: assemble_def shifted_def Let_def split: prod.splits)

lemma flags_assemble:
  "frame (assemble v s) = (frame s \<and> \<not> dbit s + 1 > FRAMEBITCOUNT)"
  "preamble (assemble v s) = (preamble s \<and> \<not> dbit s + 1 > FRAMEBITCOUNT)"
  by (simp_all add: assemble_def Let_def split: prod.splits)

lemma kept_assemble:
  "hctr (assemble v s) = hctr s" "prvsamp (assemble v s) = prvsamp s"
  "center (assemble v s) = center s"
  by (simp_all add: assemble_def Let_def split: prod.splits)

lemmas assemble_fields =
  bytearray_assemble printed_assemble dcenter_assemble dbit_assemble bitpos_assemble
  bytecount_assemble bytedata_assemble flags_assemble kept_assemble

lemma tick_falling:
  assumes "dcenter s \<le> 0" and "cursamp < center s" and "center s < prvsamp s"
  shows "tick v s cursamp =
           (handoff ((if hctr s > MINLOWBIT \<and> frame s then assemble v s else s)\<lparr>hctr := 0\<rparr>))
             \<lparr>prvsamp := cursamp\<rparr>"
  using assms by (simp add: tick_decoding edge_cases_def Let_def)

lemma handoff_fields:
  "bytearray (handoff s) = bytearray s" "printed (handoff s) = printed s"
  "dcenter (handoff s) = dcenter s" "dbit (handoff s) = dbit s" "bitpos (handoff s) = bitpos s"
  "bytecount (handoff s) = bytecount s" "bytedata (handoff s) = bytedata s"
  "hctr (handoff s) = hctr s" "center (handoff s) = center s" "prvsamp (handoff s) = prvsamp s"
  "frame (handoff s) = (frame s \<or> hctr s = 0 \<and> preamble s)"
  "preamble (handoff s) = (preamble s \<and> hctr s \<noteq> 0)"
  by (auto simp: handoff_def)

subsection \<open>The invariant of the reachable states\<close>

lemma framing_inv_init: "length garbage = 9 \<Longrightarrow> framing_inv (init garbage)"
  by (simp add: framing_inv_def init_def config_defs)

lemma framing_inv_calibrate:
  "framing_inv s \<Longrightarrow> 0 < dcenter s \<Longrightarrow> framing_inv ((calibrate s x)\<lparr>prvsamp := x\<rparr>)"
  by (auto simp: framing_inv_def calibrate_def Let_def config_defs)

lemma framing_inv_assemble:
  assumes "framing_inv s" and "dcenter s = 0"
  shows "framing_inv ((assemble v s)\<lparr>hctr := 0, preamble := False\<rparr>)"
  using assms unfolding framing_inv_def
  by (simp add: assemble_fields config_defs)

lemma framing_inv_decode:
  assumes "framing_inv s" and "dcenter s = 0"
  shows "framing_inv ((handoff (edge_cases v s x))\<lparr>prvsamp := x\<rparr>)"
proof -
  consider (rise) "center s < x" "prvsamp s < center s"
    | (high) "center s < x" "center s < prvsamp s"
    | (fall) "x < center s" "center s < prvsamp s"
    | (other) "\<not> (center s < x \<and> prvsamp s < center s)" "\<not> (center s < x \<and> center s < prvsamp s)"
        "\<not> (x < center s \<and> center s < prvsamp s)"
    by linarith
  then show ?thesis
  proof cases
    case rise
    then show ?thesis
      using assms by (simp add: framing_inv_def edge_cases_def handoff_def config_defs)
  next
    case high
    then show ?thesis
      using assms by (auto simp: framing_inv_def edge_cases_def handoff_def Let_def config_defs)
  next
    case fall
    have ec: "edge_cases v s x = (if hctr s > MINLOWBIT \<and> frame s then assemble v s else s)\<lparr>hctr := 0\<rparr>"
      using fall by (simp add: edge_cases_def Let_def)
    show ?thesis
    proof (cases "hctr s > MINLOWBIT \<and> frame s")
      case True
      have "framing_inv ((assemble v s)\<lparr>hctr := 0, preamble := False\<rparr>)"
        using assms by (rule framing_inv_assemble)
      then show ?thesis
        using True by (simp add: ec framing_inv_def handoff_def)
    next
      case False
      then show ?thesis
        using assms by (auto simp: ec framing_inv_def handoff_def config_defs)
    qed
  next
    case other
    then have "edge_cases v s x = s\<lparr>hctr := 0\<rparr>"
      unfolding edge_cases_def by (simp only: if_False)
    then show ?thesis
      using assms by (auto simp: framing_inv_def handoff_def config_defs)
  qed
qed

lemma framing_inv_tick:
  assumes "framing_inv s"
  shows "framing_inv (tick v s x)"
proof (cases "0 < dcenter s")
  case True
  then show ?thesis
    using assms by (simp add: tick_calibrating framing_inv_calibrate)
next
  case False
  then have "dcenter s = 0"
    using assms by (simp add: framing_inv_def)
  then show ?thesis
    using assms by (simp add: tick_decoding framing_inv_decode)
qed

lemma reachable_framing_inv: "reachable v s \<Longrightarrow> framing_inv s"
  by (induction rule: reachable.induct) (simp_all add: framing_inv_init framing_inv_tick)

lemma reachable_run:
  assumes "reachable v s" and "\<forall>x\<in>set xs. - 32768 \<le> x \<and> x \<le> 32767"
  shows "reachable v (run v s xs)"
  using assms(2)
proof (induction xs rule: rev_induct)
  case Nil
  then show ?case
    using assms(1) by (simp add: run_Nil)
next
  case (snoc x xs)
  then show ?case
    by (simp add: run_snoc reachable.step)
qed

lemma reachable_main:
  assumes "length garbage = 9" and "\<forall>x\<in>set xs. - 32768 \<le> x \<and> x \<le> 32767"
  shows "reachable v (run v (init garbage) xs)"
  using reachable_run [OF reachable.start [OF assms(1)] assms(2)] .

text \<open>Every sample read is a 16-bit signed value, so every state of the program is reachable.\<close>

lemma sample_of_range: "- 32768 \<le> sample_of lo hi \<and> sample_of lo hi \<le> 32767"
proof -
  let ?w = "word_of_int (lo OR push_bit 8 hi) :: 16 word"
  have "- (2 ^ (LENGTH(16) - 1)) \<le> sint ?w" and "sint ?w < 2 ^ (LENGTH(16) - 1)"
    by (rule sint_ge, rule sint_lt)
  then have "- 32768 \<le> sint ?w" and "sint ?w < 32768"
    by simp_all
  then show ?thesis
    unfolding sample_of_def int16_t_def by linarith
qed

lemma read_samples_range: "\<forall>x\<in>set (read_samples input). - 32768 \<le> x \<and> x \<le> 32767"
  by (induction input rule: read_samples.induct) (simp_all add: sample_of_range)

lemma main_reachable: "length garbage = 9 \<Longrightarrow> reachable v (main v garbage input)"
  unfolding main_def by (rule reachable_main [OF _ read_samples_range])

lemma read_samples_length: "length (read_samples input) = length input div 2 + 1"
  by (induction input rule: read_samples.induct) simp_all

lemma concrete_samples:
  "\<forall>x\<in>set warmup. - 32768 \<le> x \<and> x \<le> 32767"
  "\<forall>x\<in>set preamble_run. - 32768 \<le> x \<and> x \<le> 32767"
  "\<forall>x\<in>set (pulse n). - 32768 \<le> x \<and> x \<le> 32767"
  "\<forall>x\<in>set (pulses k n). - 32768 \<le> x \<and> x \<le> 32767"
  by (auto simp: warmup_def preamble_run_def pulse_def pulses_def)

subsection \<open>Wrap-around of the run counters\<close>

lemma int32_t_word: "int32_t v = sint (word_of_int v :: 32 word)"
  by (simp add: int32_t_def sint_sbintrunc' signed_take_bit_eq_take_bit_shift take_bit_eq_mod)

lemma int32_t_succ: "int32_t (int32_t a + 1) = int32_t (a + 1)"
  unfolding int32_t_def by (simp add: mod_simps)

lemma int32_t_small: "- 2147483648 \<le> v \<Longrightarrow> v < 2147483648 \<Longrightarrow> int32_t v = v"
  unfolding int32_t_def by simp

lemma int32_t_nonzero:
  assumes "0 < v" and "v < 4294967296"
  shows "int32_t v \<noteq> 0"
proof (cases "v < 2147483648")
  case True
  then show ?thesis
    using assms(1) by (simp add: int32_t_small)
next
  case False
  have "v + 2147483648 = (v - 2147483648) + 4294967296"
    by simp
  then have "(v + 2147483648) mod 4294967296 = (v - 2147483648) mod 4294967296"
    by (simp only: mod_add_self2)
  also have "\<dots> = v - 2147483648"
    using False assms(2) by (simp add: mod_pos_pos_trivial)
  finally show ?thesis
    using assms(2) by (simp add: int32_t_def)
qed

subsection \<open>High runs\<close>

text \<open>
  The first sample of a high run sets the pulse counter to 0 and every further one adds
  1: after \<open>n\<close> high samples the counter is \<open>n - 1\<close>, wrapped around once the run is
  longer than \<open>2^31\<close> samples.
\<close>

lemma tick_first_high:
  assumes "dcenter s = 0" and "prvsamp s \<le> center s" and "center s < h"
  shows "tick v s h = s\<lparr>hctr := 0, preamble := False, frame := (frame s \<or> preamble s),
                         prvsamp := h\<rparr>"
proof -
  have "edge_cases v s h = s\<lparr>hctr := 0\<rparr>"
    using assms(2,3) by (auto simp: edge_cases_def)
  then show ?thesis
    using assms(1) by (auto simp: tick_decoding handoff_def)
qed

lemma tick_next_high:
  assumes "dcenter s = 0" and "center s < prvsamp s" and "center s < h"
    and "int32_t (hctr s + 1) \<noteq> 0"
  shows "tick v s h = s\<lparr>hctr := int32_t (hctr s + 1),
                         preamble := (preamble s \<or> PREAMBLE_COUNT < int32_t (hctr s + 1)),
                         prvsamp := h\<rparr>"
proof -
  have "edge_cases v s h = s\<lparr>hctr := int32_t (hctr s + 1),
                         preamble := (preamble s \<or> PREAMBLE_COUNT < int32_t (hctr s + 1))\<rparr>"
    using assms(2,3) by (auto simp: edge_cases_def Let_def)
  then show ?thesis
    using assms(1,4) by (auto simp: tick_decoding handoff_def)
qed

lemma tick_wrapped_high:
  assumes "dcenter s = 0" and "center s < prvsamp s" and "center s < h"
    and "int32_t (hctr s + 1) = 0" and "preamble s"
  shows "tick v s h = s\<lparr>hctr := 0, preamble := False, frame := True, prvsamp := h\<rparr>"
proof -
  have "edge_cases v s h = s\<lparr>hctr := 0\<rparr>"
    using assms(2-5) by (cases s) (auto simp: edge_cases_def Let_def PREAMBLE_COUNT_def)
  then show ?thesis
    using assms(1,5) by (auto simp: tick_decoding handoff_def)
qed

lemma run_high:
  assumes "hs \<noteq> []" and "length hs \<le> 4294967296" and "dcenter s = 0"
    and "prvsamp s \<le> center s" and "\<forall>h\<in>set hs. center s < h"
  shows "run v s hs = s\<lparr>hctr := int32_t (int (length hs) - 1),
                          preamble := (PREAMBLE_COUNT < int (length hs) - 1),
                          frame := (frame s \<or> preamble s),
                          prvsamp := last hs\<rparr>"
  using assms
proof (induction hs rule: rev_nonempty_induct)
  case (single h)
  then show ?case
    by (simp add: run_Cons run_Nil tick_first_high PREAMBLE_COUNT_def int32_t_def)
next
  case (snoc h hs)
  let ?n = "int (length hs)"
  have before: "run v s hs = s\<lparr>hctr := int32_t (?n - 1),
                          preamble := (PREAMBLE_COUNT < ?n - 1),
                          frame := (frame s \<or> preamble s),
                          prvsamp := last hs\<rparr>"
    using snoc by simp
  have n: "0 < ?n" "?n < 4294967296"
    using snoc.hyps snoc.prems(1) by simp_all
  have next_counter: "int32_t (int32_t (?n - 1) + 1) = int32_t ?n"
    by (simp add: int32_t_succ)
  have nonzero: "int32_t ?n \<noteq> 0"
    using n by (rule int32_t_nonzero)
  have flag: "(PREAMBLE_COUNT < ?n - 1 \<or> PREAMBLE_COUNT < int32_t ?n) = (PREAMBLE_COUNT < ?n)"
  proof (cases "PREAMBLE_COUNT < ?n - 1")
    case True
    then show ?thesis by simp
  next
    case False
    then have "int32_t ?n = ?n"
      by (intro int32_t_small) (simp_all add: PREAMBLE_COUNT_def)
    then show ?thesis
      using False by simp
  qed
  have "center s < last hs" and "center s < h"
    using snoc.hyps snoc.prems by auto
  then have "tick v (run v s hs) h = (run v s hs)\<lparr>hctr := int32_t (hctr (run v s hs) + 1),
                         preamble := (preamble (run v s hs)
                                      \<or> PREAMBLE_COUNT < int32_t (hctr (run v s hs) + 1)),
                         prvsamp := h\<rparr>"
    using snoc.prems(2) nonzero
    by (intro tick_next_high) (simp_all add: before next_counter)
  then show ?case
    by (simp add: run_snoc before next_counter flag)
qed

subsection \<open>The concrete inputs, evaluated\<close>

lemma valid_frame_state:
  "run Logging (init stack9) valid_frame_run =
     \<lparr>bytearray = [0, 0, 0, 0, 0, 0, 0, 0xAA, 0xAA], bytedata = 0, prvsamp = 400, hctr = 4,
      bitpos = 7, bytecount = 7, preamble = False, frame = True, dcenter = 0, dbit = 63,
      center = 200, printed = []\<rparr>"
  by code_simp

lemma corrupt_frame_state:
  "run Logging (init stack9) corrupt_frame_run =
     \<lparr>bytearray = [0, 0, 0, 0, 0, 0, 0, 0xAA, 0xAA], bytedata = 0, prvsamp = 400, hctr = 9,
      bitpos = 7, bytecount = 7, preamble = False, frame = True, dcenter = 0, dbit = 63,
      center = 200, printed = []\<rparr>"
  by code_simp

lemma five_high_state:
  "run Logging (init stack9) five_high_run =
     \<lparr>bytearray = stack9, bytedata = 0, prvsamp = 400, hctr = 4, bitpos = 0, bytecount = 0,
      preamble = False, frame = True, dcenter = 0, dbit = 0, center = 200, printed = []\<rparr>"
  by code_simp

lemma preamble_high_state:
  "run Logging (init stack9) preamble_high_run =
     \<lparr>bytearray = stack9, bytedata = 0, prvsamp = 400, hctr = 41, bitpos = 0, bytecount = 0,
      preamble = True, frame = False, dcenter = 0, dbit = 0, center = 200, printed = []\<rparr>"
  by code_simp

lemma framing_state:
  "run Logging (init stack9) framing_run =
     \<lparr>bytearray = stack9, bytedata = 0, prvsamp = 0, hctr = 0, bitpos = 0, bytecount = 0,
      preamble = False, frame = True, dcenter = 0, dbit = 0, center = 200, printed = []\<rparr>"
  by code_simp

lemma complete_frame_state:
  "run Logging (init stack9) (valid_frame_run @ [0]) =
     \<lparr>bytearray = [0, 0, 0, 0, 0, 0, 0, 0, 0xAA], bytedata = 0, prvsamp = 0, hctr = 0,
      bitpos = 0, bytecount = 8, preamble = False, frame = True, dcenter = 0, dbit = 64,
      center = 200, printed = [Reading 0]\<rparr>"
  unfolding run_snoc valid_frame_state by code_simp

lemma overflow_state:
  "run Logging (init stack9) overflow_run =
     \<lparr>bytearray = [0, 0, 0, 0, 0, 0, 0, 0, 0xAA], bytedata = 0, prvsamp = 400, hctr = 4,
      bitpos = 0, bytecount = 8, preamble = False, frame = True, dcenter = 0, dbit = 64,
      center = 200, printed = [Reading 0]\<rparr>"
proof -
  have "run Logging (init stack9) overflow_run
      = run Logging (run Logging (init stack9) (valid_frame_run @ [0])) (replicate 5 400)"
    unfolding overflow_run_def by (simp only: run_append append_assoc [symmetric])
  then show ?thesis
    unfolding complete_frame_state by code_simp
qed

lemma low_state:
  "run Logging (init stack9) (warmup @ [0]) =
     \<lparr>bytearray = stack9, bytedata = 0, prvsamp = 0, hctr = 0, bitpos = 0, bytecount = 0,
      preamble = False, frame = False, dcenter = 0, dbit = 0, center = 200, printed = []\<rparr>"
  by code_simp

section \<open>Frame validation and recalibration (claim C1)\<close>

text \<open>
  C1. On the iteration that completes the eighth byte of a frame (a negative edge while
  framing, with seven bytes and seven bits assembled), the frame handed to
  \<^verbatim>\<open>calculate_watts\<close> is accepted exactly if the sum of its first seven bytes modulo 256
  equals its eighth byte. An accepted frame prints exactly one reading and leaves the
  decoder decoding. A rejected frame prints no reading (only the checksum message of the
  logging program) and sets \<open>dcenter\<close> to \<open>CENTERSAMP\<close>: each of the next 100 samples
  only decrements \<open>dcenter\<close>, is added to \<open>center\<close> and becomes \<open>prvsamp\<close>, and the
  100th installs the new center and resets the framing state.
\<close>

theorem frame_validation:
  assumes decoding: "dcenter s = 0" and framing: "frame s" and wide: "MINLOWBIT < hctr s"
    and high: "center s < prvsamp s" and low: "cursamp < center s"
    and last_bit: "bitpos s = 7" and last_byte: "bytecount s = 7"
    and s': "s' = tick v s cursamp"
  shows "(fst (watts v (bytearray s')) = 1) = checksum_ok (bytearray s')
    \<and> (checksum_ok (bytearray s') \<longrightarrow>
          (\<exists>r. printed s' = printed s @ [Reading r]) \<and> dcenter s' = 0)
    \<and> (\<not> checksum_ok (bytearray s') \<longrightarrow>
          printed s' = printed s @ (case v of Classic sg \<Rightarrow> [] | Logging \<Rightarrow> [ChecksumError])
          \<and> dcenter s' = CENTERSAMP
          \<and> (\<forall>xs. int (length xs) < CENTERSAMP \<longrightarrow>
                run v s' xs = s'\<lparr>dcenter := CENTERSAMP - int (length xs),
                                  center := center s + sum_list xs,
                                  prvsamp := last (cursamp # xs)\<rparr>)
          \<and> (\<forall>xs. int (length xs) = CENTERSAMP \<longrightarrow>
                run v s' xs = s'\<lparr>dcenter := 0,
                                  center := c_div (center s + sum_list xs) CENTERSAMP,
                                  hctr := 0, bytedata := 0, bytecount := 0, bitpos := 0,
                                  dbit := 0, preamble := False, frame := False,
                                  prvsamp := last xs\<rparr>))"
proof -
  let ?fr = "(bytearray s)[nat (bytecount s) := shifted s]"
  have edge: "s' = (handoff ((assemble v s)\<lparr>hctr := 0\<rparr>))\<lparr>prvsamp := cursamp\<rparr>"
    unfolding s' using decoding framing wide high low by (simp add: tick_falling)
  have arr: "bytearray s' = ?fr"
    by (simp add: edge handoff_fields bytearray_assemble last_bit)
  have out: "printed s' = printed s @ snd (watts v ?fr)"
    by (simp add: edge handoff_fields printed_assemble last_bit last_byte E2BYTECOUNT_def)
  have dc: "dcenter s' = (if fst (watts v ?fr) = 0 then CENTERSAMP else 0)"
    by (simp add: edge handoff_fields dcenter_assemble last_bit last_byte E2BYTECOUNT_def decoding)
  have ce: "center s' = center s"
    by (simp add: edge handoff_fields kept_assemble)
  have pv: "prvsamp s' = cursamp"
    by (simp add: edge)
  have valid: "(fst (watts v ?fr) = 1) = checksum_ok ?fr"
    using watts_valid [of ?fr v] watts_invalid [of ?fr v] by (cases "checksum_ok ?fr") auto
  have good: "(\<exists>r. printed s' = printed s @ [Reading r]) \<and> dcenter s' = 0"
    if "checksum_ok ?fr"
    using watts_valid [OF that, of v] by (auto simp: out dc)
  have bad: "printed s' = printed s @ (case v of Classic sg \<Rightarrow> [] | Logging \<Rightarrow> [ChecksumError])
      \<and> dcenter s' = CENTERSAMP"
    if "\<not> checksum_ok ?fr"
    using watts_invalid [OF that, of v] by (simp add: out dc)
  have warm: "run v s' xs = s'\<lparr>dcenter := CENTERSAMP - int (length xs),
                                  center := center s + sum_list xs,
                                  prvsamp := last (cursamp # xs)\<rparr>"
    if "\<not> checksum_ok ?fr" and "int (length xs) < CENTERSAMP" for xs
    using run_calibrating [of xs s' v] bad [OF that(1)] that(2) by (simp add: ce pv)
  have finished: "run v s' xs = s'\<lparr>dcenter := 0,
                                  center := c_div (center s + sum_list xs) CENTERSAMP,
                                  hctr := 0, bytedata := 0, bytecount := 0, bitpos := 0,
                                  dbit := 0, preamble := False, frame := False,
                                  prvsamp := last xs\<rparr>"
    if "\<not> checksum_ok ?fr" and "int (length xs) = CENTERSAMP" for xs
  proof -
    have "xs \<noteq> []" using that(2) by (auto simp: CENTERSAMP_def)
    then show ?thesis
      using run_calibrated [of s' xs v] bad [OF that(1)] that(2) by (simp add: ce)
  qed
  show ?thesis
    unfolding arr using valid good bad warm finished by blast
qed

theorem frame_validation_witness:
  "printed (tick Logging (run Logging (init stack9) valid_frame_run) 0) = [Reading 0]
   \<and> dcenter (tick Logging (run Logging (init stack9) valid_frame_run) 0) = 0
   \<and> printed (tick Logging (run Logging (init stack9) corrupt_frame_run) 0) = [ChecksumError]
   \<and> dcenter (tick Logging (run Logging (init stack9) corrupt_frame_run) 0) = 100
   \<and> printed (run Logging (tick Logging (run Logging (init stack9) corrupt_frame_run) 0) warmup)
         = [ChecksumError]
   \<and> dcenter (run Logging (tick Logging (run Logging (init stack9) corrupt_frame_run) 0) warmup)
         = 0"
proof -
  let ?g = "run Logging (init stack9) valid_frame_run"
  let ?b = "run Logging (init stack9) corrupt_frame_run"
  have g: "dcenter ?g = 0" "frame ?g" "MINLOWBIT < hctr ?g" "center ?g < prvsamp ?g"
    "0 < center ?g" "bitpos ?g = 7" "bytecount ?g = 7" "printed ?g = []"
    by (simp_all add: valid_frame_state MINLOWBIT_def)
  have b: "dcenter ?b = 0" "frame ?b" "MINLOWBIT < hctr ?b" "center ?b < prvsamp ?b"
    "0 < center ?b" "bitpos ?b = 7" "bytecount ?b = 7" "printed ?b = []"
    by (simp_all add: corrupt_frame_state MINLOWBIT_def)
  have "tick Logging ?g 0 = \<lparr>bytearray = [0, 0, 0, 0, 0, 0, 0, 0, 0xAA], bytedata = 0, prvsamp = 0, hctr = 0,
      bitpos = 0, bytecount = 8, preamble = False, frame = True, dcenter = 0, dbit = 64,
      center = 200, printed = [Reading 0]\<rparr>"
    unfolding valid_frame_state by code_simp
  then have tg: "bytearray (tick Logging ?g 0) = [0, 0, 0, 0, 0, 0, 0, 0, 0xAA]"
    "printed (tick Logging ?g 0) = [Reading 0]"
    by simp_all
  have okg: "checksum_ok (bytearray (tick Logging ?g 0))"
    unfolding tg by (simp add: checksum_ok_def sum_below_7)
  have "bytearray (tick Logging ?b 0) = [0, 0, 0, 0, 0, 0, 0, 1, 0xAA]"
    unfolding corrupt_frame_state by code_simp
  then have okb: "\<not> checksum_ok (bytearray (tick Logging ?b 0))"
    by (simp add: checksum_ok_def sum_below_7)
  have len: "int (length warmup) = CENTERSAMP"
    by (simp add: warmup_def CENTERSAMP_def)
  note G = frame_validation [OF g(1-4) g(5) g(6-7) refl, of Logging]
  note B = frame_validation [OF b(1-4) b(5) b(6-7) refl, of Logging]
  have "dcenter (tick Logging ?g 0) = 0"
    using G okg by blast
  moreover have "printed (tick Logging ?b 0) = [ChecksumError]"
    using B okb by (simp add: b(8))
  moreover have "dcenter (tick Logging ?b 0) = 100"
    using B okb by (simp add: CENTERSAMP_def)
  moreover have "run Logging (tick Logging ?b 0) warmup
      = (tick Logging ?b 0)\<lparr>dcenter := 0,
            center := c_div (center ?b + sum_list warmup) CENTERSAMP,
            hctr := 0, bytedata := 0, bytecount := 0, bitpos := 0,
            dbit := 0, preamble := False, frame := False, prvsamp := last warmup\<rparr>"
    using B okb len by blast
  ultimately show ?thesis
    using tg(2) by simp
qed

section \<open>The power conversion (claim C2)\<close>

lemma pow_ge_1: "0 \<le> e \<Longrightarrow> 1 \<le> pow 2 e"
  by (simp add: pow_def)

lemma logging_power_formula:
  "checksum_ok bytes \<Longrightarrow>
     watts Logging bytes =
       (1, [Reading (real_of_int VOLTAGE
                      * real_of_int (uint (bytes ! 4) * 256 + uint (bytes ! 5))
                      / (32768 / pow 2 (sint (bytes ! 6))))])"
  by (simp add: watts_def calculate_watts_cases VOLTAGE_def)

text \<open>
  C2. The claim: for an accepted frame the printed power is \<open>VOLTAGE\<close> times the unsigned
  big-endian reading of bytes 4 and 5, divided by \<open>32768 / 2^e\<close> with \<open>e\<close> byte 6 read
  as a signed exponent. \<^verbatim>\<open>EfergyRPI_log.c\<close> prints that value (\<open>logging_power_formula\<close>).
  \<^verbatim>\<open>EfergyRPI_001.c\<close> does not: on the frame \<open>failing_frame\<close> the claimed value is 120,
  but with a signed \<^verbatim>\<open>char\<close> the program prints -120 (bytes 4 and 5 are read signed) and
  with an unsigned \<^verbatim>\<open>char\<close> it prints a value of at least 240 (the exponent is read as
  255).
\<close>

theorem classic_power_diverges:
  "checksum_ok failing_frame
   \<and> real_of_int VOLTAGE
       * real_of_int (uint (failing_frame ! 4) * 256 + uint (failing_frame ! 5))
       / (32768 / pow 2 (sint (failing_frame ! 6))) = 120
   \<and> watts Logging failing_frame = (1, [Reading 120])
   \<and> watts (Classic True) failing_frame = (1, [Reading (- 120)])
   \<and> (\<exists>r. watts (Classic False) failing_frame = (1, [Reading r]) \<and> 240 \<le> r)"
proof -
  have ok: "checksum_ok failing_frame"
    by (simp add: checksum_ok_def sum_below_7 failing_frame_def)
  have claimed: "real_of_int VOLTAGE
       * real_of_int (uint (failing_frame ! 4) * 256 + uint (failing_frame ! 5))
       / (32768 / pow 2 (sint (failing_frame ! 6))) = 120"
    by (simp add: failing_frame_def VOLTAGE_def pow_def)
  have logging: "watts Logging failing_frame = (1, [Reading 120])"
    using logging_power_formula [OF ok] claimed by simp
  have signed: "watts (Classic True) failing_frame = (1, [Reading (- 120)])"
    using ok by (simp add: watts_def calculate_watts_001_cases char_value_def)
       (simp add: failing_frame_def pow_def)
  have "1 \<le> pow 2 255"
    by (rule pow_ge_1) simp
  then have "240 \<le> 240 * real_of_int (128 * 256 + 0) / (32768 / pow 2 255)"
    by simp
  moreover have "watts (Classic False) failing_frame
      = (1, [Reading (240 * real_of_int (128 * 256 + 0) / (32768 / pow 2 255))])"
    using ok by (simp add: watts_def calculate_watts_001_cases char_value_def)
       (simp add: failing_frame_def)
  ultimately have unsigned: "\<exists>r. watts (Classic False) failing_frame = (1, [Reading r]) \<and> 240 \<le> r"
    by blast
  show ?thesis
    using ok claimed logging signed unsigned by blast
qed

section \<open>Calibration (claim C3)\<close>

text \<open>
  At the start \<open>center\<close> is 0, and the first 100 samples install their truncated mean.
  A calibration triggered later starts from the center then in force: the accumulator is
  not cleared, so the old center is added to the sum of the 100 samples before the
  division.
\<close>

lemma startup_calibration:
  assumes "int (length xs) = CENTERSAMP"
  shows "run v (init garbage) xs =
           (init garbage)\<lparr>dcenter := 0, center := c_div (sum_list xs) CENTERSAMP,
                           prvsamp := last xs\<rparr>"
proof -
  have "xs \<noteq> []"
    using assms by (auto simp: CENTERSAMP_def)
  then show ?thesis
    using run_calibrated [of "init garbage" xs v] assms by (simp add: init_def)
qed

lemma recalibration:
  assumes "dcenter s = CENTERSAMP" and "int (length xs) = CENTERSAMP"
  shows "center (run v s xs) = c_div (center s + sum_list xs) CENTERSAMP"
proof -
  have "xs \<noteq> []"
    using assms(2) by (auto simp: CENTERSAMP_def)
  then show ?thesis
    using run_calibrated [of s xs v] assms by simp
qed

text \<open>
  C3. The claim: every calibration, also one triggered by a checksum failure, installs the
  truncated mean of the next 100 samples. After a warm-up of 100 samples of value 200 the
  center is 200; a frame with a failing checksum follows and triggers a calibration; the
  next 100 samples are again all 200, with mean 200, and the center installed is 202.
\<close>

theorem recalibration_keeps_old_center:
  "center (run Logging (init stack9) warmup) = 200
   \<and> dcenter (run Logging (init stack9) (corrupt_frame_run @ [0])) = CENTERSAMP
   \<and> printed (run Logging (init stack9) (corrupt_frame_run @ [0])) = [ChecksumError]
   \<and> c_div (sum_list warmup) CENTERSAMP = 200
   \<and> center (run Logging (init stack9) (corrupt_frame_run @ [0] @ warmup)) = 202"
proof -
  have mean: "c_div (sum_list warmup) CENTERSAMP = 200"
    by code_simp
  have len: "int (length warmup) = CENTERSAMP"
    by (simp add: warmup_def CENTERSAMP_def)
  have first: "center (run Logging (init stack9) warmup) = 200"
    using startup_calibration [OF len, of Logging stack9] mean by simp
  have failed: "run Logging (init stack9) (corrupt_frame_run @ [0]) =
     \<lparr>bytearray = [0, 0, 0, 0, 0, 0, 0, 1, 0xAA], bytedata = 0, prvsamp = 0, hctr = 0,
      bitpos = 0, bytecount = 8, preamble = False, frame = True, dcenter = 100, dbit = 64,
      center = 200, printed = [ChecksumError]\<rparr>"
    unfolding run_snoc corrupt_frame_state by code_simp
  have split: "run Logging (init stack9) (corrupt_frame_run @ [0] @ warmup)
      = run Logging (run Logging (init stack9) (corrupt_frame_run @ [0])) warmup"
    by (simp only: run_append append_assoc [symmetric])
  have again: "center (run Logging (init stack9) (corrupt_frame_run @ [0] @ warmup))
      = c_div (200 + sum_list warmup) CENTERSAMP"
    unfolding split
    using recalibration [of "run Logging (init stack9) (corrupt_frame_run @ [0])" warmup Logging] len
    by (simp add: failed CENTERSAMP_def)
  have "c_div (200 + sum_list warmup) CENTERSAMP = 202"
    by code_simp
  then show ?thesis
    using mean first failed again by (simp add: CENTERSAMP_def)
qed

section \<open>Pulse widths (claim C4)\<close>

text \<open>
  What the primary loop does with a high run that starts while framing is active, is at
  most \<open>2^31\<close> samples long and is ended by a sample below the center. The thresholds
  are compared with the pulse counter, which is one less than the number of samples: a
  run of at most 4 samples emits no bit, a run of 5 to 9 samples emits logic 0 and a run
  of 10 or more emits logic 1.
\<close>

lemma classified_run:
  assumes decoding: "dcenter s = 0" and framing: "frame s" and start: "prvsamp s \<le> center s"
    and nonempty: "hs \<noteq> []" and short: "length hs \<le> 2147483648"
    and high: "\<forall>h\<in>set hs. center s < h" and low: "lo < center s"
    and s': "s' = run v s (hs @ [lo])"
    and bit: "b = (if 10 \<le> length hs then 1 else 0)"
  shows "hctr (run v s hs) = int (length hs) - 1
    \<and> (length hs \<le> 4 \<longrightarrow>
          dbit s' = dbit s \<and> bitpos s' = bitpos s \<and> bytecount s' = bytecount s
          \<and> bytedata s' = bytedata s \<and> bytearray s' = bytearray s \<and> printed s' = printed s)
    \<and> (5 \<le> length hs \<longrightarrow>
          shifted (run v s hs) = push_bit 1 (bytedata s) OR b
          \<and> dbit s' = (if FRAMEBITCOUNT < dbit s + 1 then 0 else dbit s + 1)
          \<and> (dbit s < FRAMEBITCOUNT \<and> bitpos s < 7 \<longrightarrow>
                bitpos s' = bitpos s + 1 \<and> bytecount s' = bytecount s
                \<and> bytedata s' = push_bit 1 (bytedata s) OR b \<and> bytearray s' = bytearray s)
          \<and> (dbit s < FRAMEBITCOUNT \<and> 7 \<le> bitpos s \<longrightarrow>
                bitpos s' = 0 \<and> bytecount s' = bytecount s + 1 \<and> bytedata s' = 0
                \<and> bytearray s' = (bytearray s)[nat (bytecount s) := push_bit 1 (bytedata s) OR b]))"
proof -
  let ?t = "run v s hs"
  have "length hs \<le> 4294967296"
    using short by simp
  then have wrapped: "?t = s\<lparr>hctr := int32_t (int (length hs) - 1),
                   preamble := (PREAMBLE_COUNT < int (length hs) - 1),
                   frame := (frame s \<or> preamble s), prvsamp := last hs\<rparr>"
    using nonempty decoding start high by (intro run_high)
  have "int32_t (int (length hs) - 1) = int (length hs) - 1"
    using short by (intro int32_t_small) simp_all
  then have t: "?t = s\<lparr>hctr := int (length hs) - 1,
                   preamble := (PREAMBLE_COUNT < int (length hs) - 1),
                   frame := (frame s \<or> preamble s), prvsamp := last hs\<rparr>"
    using wrapped by simp
  have width: "hctr ?t = int (length hs) - 1"
    by (simp add: t)
  have "center s < last hs"
    using nonempty high by simp
  then have edge: "s' = (handoff ((if hctr ?t > MINLOWBIT \<and> frame ?t then assemble v ?t else ?t)
                                   \<lparr>hctr := 0\<rparr>))\<lparr>prvsamp := lo\<rparr>"
    unfolding s' run_snoc using decoding low by (intro tick_falling) (simp_all add: t)
  have noise: "dbit s' = dbit s \<and> bitpos s' = bitpos s \<and> bytecount s' = bytecount s
          \<and> bytedata s' = bytedata s \<and> bytearray s' = bytearray s \<and> printed s' = printed s"
    if "length hs \<le> 4"
  proof -
    have "\<not> hctr ?t > MINLOWBIT"
      using that by (simp add: t MINLOWBIT_def)
    then show ?thesis
      by (simp add: edge handoff_fields) (simp add: t)
  qed
  have sh: "shifted ?t = push_bit 1 (bytedata s) OR b"
    unfolding bit by (auto simp: shifted_def t MINHIGHBIT_def)
  have classified: "s' = (handoff ((assemble v ?t)\<lparr>hctr := 0\<rparr>))\<lparr>prvsamp := lo\<rparr>"
    if "5 \<le> length hs"
  proof -
    have "hctr ?t > MINLOWBIT \<and> frame ?t"
      using that framing by (simp add: t MINLOWBIT_def)
    then show ?thesis
      by (simp add: edge)
  qed
  have tally: "dbit s' = (if FRAMEBITCOUNT < dbit s + 1 then 0 else dbit s + 1)"
    if "5 \<le> length hs"
    by (simp add: classified [OF that] handoff_fields dbit_assemble) (simp add: t)
  have inside: "bitpos s' = bitpos s + 1 \<and> bytecount s' = bytecount s
                \<and> bytedata s' = push_bit 1 (bytedata s) OR b \<and> bytearray s' = bytearray s"
    if "5 \<le> length hs" and "dbit s < FRAMEBITCOUNT \<and> bitpos s < 7"
    using that(2)
    by (simp add: classified [OF that(1)] handoff_fields assemble_fields sh) (simp add: t)
  have stored: "bitpos s' = 0 \<and> bytecount s' = bytecount s + 1 \<and> bytedata s' = 0
                \<and> bytearray s' = (bytearray s)[nat (bytecount s) := push_bit 1 (bytedata s) OR b]"
    if "5 \<le> length hs" and "dbit s < FRAMEBITCOUNT \<and> 7 \<le> bitpos s"
    using that(2)
    by (simp add: classified [OF that(1)] handoff_fields assemble_fields sh) (simp add: t)
  show ?thesis
    using width noise sh tally inside stored by blast
qed

text \<open>
  C4. The claim: while framing is active a high run of 4 to 8 samples emits logic 0 and a
  run of more than 8 samples emits logic 1 (a run of 3 is noise). The comments of the
  thresholds give them as numbers of samples, and \<^verbatim>\<open>decode_bytes_from_pulse_counts\<close>
  applies them to numbers of samples: for eight runs of 4 samples it assembles the byte
  00, for eight runs of 9 samples the byte FF. The primary loop, on the same samples after
  a preamble, assembles no bit at all from the runs of 4, and the byte 00 from the runs
  of 9; it needs runs of 10 samples for the byte FF.
\<close>

theorem pulse_width_off_by_one:
  "frame (run Logging (init stack9) framing_run)
   \<and> fst (pulse_loop 200 (pulses 8 4) 0 0 [] []) = replicate 8 4
   \<and> decode_bytes_from_pulse_counts (replicate 8 4) = (1, replicate 9 0)
   \<and> dbit (run Logging (init stack9) (framing_run @ pulses 8 4)) = 0
   \<and> bytecount (run Logging (init stack9) (framing_run @ pulses 8 4)) = 0
   \<and> fst (pulse_loop 200 (pulses 8 9) 0 0 [] []) = replicate 8 9
   \<and> decode_bytes_from_pulse_counts (replicate 8 9) = (1, 0xFF # replicate 8 0)
   \<and> bytecount (run Logging (init stack9) (framing_run @ pulses 8 9)) = 1
   \<and> bytearray (run Logging (init stack9) (framing_run @ pulses 8 9)) ! 0 = 0
   \<and> bytearray (run Logging (init stack9) (framing_run @ pulses 8 10)) ! 0 = 0xFF"
proof -
  have analysis: "fst (pulse_loop 200 (pulses 8 4) 0 0 [] []) = replicate 8 4"
    "decode_bytes_from_pulse_counts (replicate 8 4) = (1, replicate 9 0)"
    "fst (pulse_loop 200 (pulses 8 9) 0 0 [] []) = replicate 8 9"
    "decode_bytes_from_pulse_counts (replicate 8 9) = (1, 0xFF # replicate 8 0)"
    by code_simp+
  have primary: "frame (run Logging (init stack9) framing_run)"
    "dbit (run Logging (run Logging (init stack9) framing_run) (pulses 8 4)) = 0"
    "bytecount (run Logging (run Logging (init stack9) framing_run) (pulses 8 4)) = 0"
    "bytecount (run Logging (run Logging (init stack9) framing_run) (pulses 8 9)) = 1"
    "bytearray (run Logging (run Logging (init stack9) framing_run) (pulses 8 9)) ! 0 = 0"
    "bytearray (run Logging (run Logging (init stack9) framing_run) (pulses 8 10)) ! 0 = 0xFF"
    unfolding framing_state by code_simp+
  show ?thesis
    using analysis primary by (simp only: run_append)
qed

section \<open>The negative edge (claim C5)\<close>

text \<open>
  C5 as stated fails where the current sample equals the center. After the warm-up (center
  200), the preamble and five high samples, framing is active and the pulse counter is 4;
  the previous sample (400) is above the center. A current sample of 200 is at the center,
  and no bit is classified: the bit tally and the bit position stay 0. A current sample
  of 199 is classified.
\<close>

theorem negative_edge_counterexample:
  "dcenter (run Logging (init stack9) five_high_run) = 0
   \<and> center (run Logging (init stack9) five_high_run) < prvsamp (run Logging (init stack9) five_high_run)
   \<and> 200 \<le> center (run Logging (init stack9) five_high_run)
   \<and> frame (run Logging (init stack9) five_high_run)
   \<and> MINLOWBIT < hctr (run Logging (init stack9) five_high_run)
   \<and> dbit (run Logging (init stack9) five_high_run) = 0
   \<and> dbit (tick Logging (run Logging (init stack9) five_high_run) 200) = 0
   \<and> bitpos (tick Logging (run Logging (init stack9) five_high_run) 200) = 0
   \<and> dbit (tick Logging (run Logging (init stack9) five_high_run) 199) = 1"
  unfolding five_high_state by code_simp

text \<open>
  C5, amended. On a decoding iteration whose previous sample is above the center and whose
  current sample is at or below it, the pulse counter is reset to 0. The completed high
  run is classified into one bit (the bit tally advances by one, or returns to 0 past
  \<open>FRAMEBITCOUNT\<close>) exactly when the current sample is strictly below the center,
  framing is active and the pulse counter exceeds \<open>MINLOWBIT\<close>; otherwise, and so
  whenever the current sample equals the center, nothing of the assembly state changes.
\<close>

theorem negative_edge:
  assumes decoding: "dcenter s = 0" and high: "center s < prvsamp s"
    and low: "cursamp \<le> center s" and s': "s' = tick v s cursamp"
  shows "hctr s' = 0
    \<and> (cursamp < center s \<and> frame s \<and> MINLOWBIT < hctr s \<longrightarrow>
          edge_cases v s cursamp = (assemble v s)\<lparr>hctr := 0\<rparr>
          \<and> dbit s' = (if FRAMEBITCOUNT < dbit s + 1 then 0 else dbit s + 1))
    \<and> (\<not> (cursamp < center s \<and> frame s \<and> MINLOWBIT < hctr s) \<longrightarrow>
          edge_cases v s cursamp = s\<lparr>hctr := 0\<rparr>
          \<and> dbit s' = dbit s \<and> bitpos s' = bitpos s \<and> bytecount s' = bytecount s
          \<and> bytedata s' = bytedata s \<and> bytearray s' = bytearray s \<and> printed s' = printed s)"
proof -
  have t: "s' = (handoff (edge_cases v s cursamp))\<lparr>prvsamp := cursamp\<rparr>"
    unfolding s' using decoding by (simp add: tick_decoding)
  have reset: "hctr (edge_cases v s cursamp) = 0"
    using high low by (simp add: edge_cases_def Let_def)
  have bit: "edge_cases v s cursamp = (assemble v s)\<lparr>hctr := 0\<rparr>"
    if "cursamp < center s \<and> frame s \<and> MINLOWBIT < hctr s"
    using that high by (simp add: edge_cases_def Let_def)
  have nobit: "edge_cases v s cursamp = s\<lparr>hctr := 0\<rparr>"
    if "\<not> (cursamp < center s \<and> frame s \<and> MINLOWBIT < hctr s)"
    using that high low by (auto simp: edge_cases_def Let_def)
  have zero: "hctr s' = 0"
    using reset by (simp add: t handoff_fields)
  have tally: "dbit s' = (if FRAMEBITCOUNT < dbit s + 1 then 0 else dbit s + 1)"
    if "cursamp < center s \<and> frame s \<and> MINLOWBIT < hctr s"
    using bit [OF that] by (simp add: t handoff_fields dbit_assemble)
  have kept: "dbit s' = dbit s \<and> bitpos s' = bitpos s \<and> bytecount s' = bytecount s
          \<and> bytedata s' = bytedata s \<and> bytearray s' = bytearray s \<and> printed s' = printed s"
    if "\<not> (cursamp < center s \<and> frame s \<and> MINLOWBIT < hctr s)"
    using nobit [OF that] by (simp add: t handoff_fields)
  show ?thesis
    using zero bit tally nobit kept by blast
qed

theorem negative_edge_witness:
  "hctr (tick Logging (run Logging (init stack9) five_high_run) 0) = 0
   \<and> dbit (tick Logging (run Logging (init stack9) five_high_run) 0) = 1
   \<and> hctr (tick Logging (run Logging (init stack9) five_high_run) 200) = 0
   \<and> dbit (tick Logging (run Logging (init stack9) five_high_run) 200) = 0"
proof -
  let ?s = "run Logging (init stack9) five_high_run"
  have h: "dcenter ?s = 0" "center ?s < prvsamp ?s" "0 \<le> center ?s" "200 \<le> center ?s"
    by (simp_all add: five_high_state)
  have bit: "0 < center ?s \<and> frame ?s \<and> MINLOWBIT < hctr ?s"
    by (simp add: five_high_state MINLOWBIT_def)
  have nobit: "\<not> (200 < center ?s \<and> frame ?s \<and> MINLOWBIT < hctr ?s)"
    by (simp add: five_high_state)
  have d: "dbit ?s = 0"
    by (simp add: five_high_state)
  note A = negative_edge [OF h(1,2) h(3) refl, of Logging]
  note B = negative_edge [OF h(1,2) h(4) refl, of Logging]
  have "hctr (tick Logging ?s 0) = 0"
    using A by blast
  moreover have "dbit (tick Logging ?s 0) = (if FRAMEBITCOUNT < dbit ?s + 1 then 0 else dbit ?s + 1)"
    using A bit by blast
  moreover have "hctr (tick Logging ?s 200) = 0"
    using B by blast
  moreover have "dbit (tick Logging ?s 200) = dbit ?s"
    using B nobit by blast
  ultimately show ?thesis
    by (simp add: d config_defs)
qed

section \<open>The assembly counters (claim C6)\<close>

text \<open>
  C6 as stated fails on the range of the byte count: the state right after the 64th bit
  of a frame is reachable and has a byte count of 8, not one of 0 to 7. The counters are
  reset only when a 65th bit is classified.
\<close>

theorem framing_counters_counterexample:
  "reachable Logging (run Logging (init stack9) (valid_frame_run @ [0]))
   \<and> bytecount (run Logging (init stack9) (valid_frame_run @ [0])) = 8
   \<and> \<not> bytecount (run Logging (init stack9) (valid_frame_run @ [0])) \<le> E2BYTECOUNT - 1"
proof -
  have "\<forall>x\<in>set (valid_frame_run @ [0]). - 32768 \<le> x \<and> x \<le> 32767"
    using concrete_samples by (auto simp: valid_frame_run_def)
  then have "reachable Logging (run Logging (init stack9) (valid_frame_run @ [0]))"
    by (intro reachable_main) (simp add: stack9_def)
  then show ?thesis
    by (simp add: complete_frame_state E2BYTECOUNT_def)
qed

text \<open>
  C6, amended. In every reachable state the bit position is between 0 and 7, the byte
  count between 0 and \<open>E2BYTECOUNT\<close> (8 included: then the bit position is 0 and the
  tally is \<open>FRAMEBITCOUNT\<close>, a complete frame), and the bit tally is eight times the
  byte count plus the bit position, at most \<open>FRAMEBITCOUNT\<close>. Whenever an iteration
  classifies a bit that raises the tally above \<open>FRAMEBITCOUNT\<close>, the bit position, the
  byte count, the tally and the accumulator are 0 and both flags are clear after it,
  nothing is printed and the frame buffer is untouched.
\<close>

theorem framing_counters:
  assumes reach: "reachable v s" and s': "s' = tick v s cursamp"
  shows "0 \<le> bitpos s \<and> bitpos s \<le> 7 \<and> 0 \<le> bytecount s \<and> bytecount s \<le> E2BYTECOUNT
    \<and> dbit s = 8 * bytecount s + bitpos s \<and> dbit s \<le> FRAMEBITCOUNT
    \<and> (bytecount s = E2BYTECOUNT \<longrightarrow> bitpos s = 0 \<and> dbit s = FRAMEBITCOUNT)
    \<and> (dcenter s = 0 \<and> cursamp < center s \<and> center s < prvsamp s \<and> frame s
         \<and> MINLOWBIT < hctr s \<and> FRAMEBITCOUNT < dbit s + 1 \<longrightarrow>
          bitpos s' = 0 \<and> bytecount s' = 0 \<and> dbit s' = 0 \<and> bytedata s' = 0
          \<and> \<not> preamble s' \<and> \<not> frame s'
          \<and> printed s' = printed s \<and> bytearray s' = bytearray s \<and> dcenter s' = 0)"
proof -
  have inv: "framing_inv s"
    using reach by (rule reachable_framing_inv)
  then have counters: "0 \<le> bitpos s \<and> bitpos s \<le> 7 \<and> 0 \<le> bytecount s
      \<and> bytecount s \<le> E2BYTECOUNT
      \<and> dbit s = 8 * bytecount s + bitpos s \<and> dbit s \<le> FRAMEBITCOUNT"
    by (simp add: framing_inv_def)
  then have full: "bitpos s = 0 \<and> dbit s = FRAMEBITCOUNT" if "bytecount s = E2BYTECOUNT"
    using that by (simp add: config_defs)
  have reset: "bitpos s' = 0 \<and> bytecount s' = 0 \<and> dbit s' = 0 \<and> bytedata s' = 0
          \<and> \<not> preamble s' \<and> \<not> frame s'
          \<and> printed s' = printed s \<and> bytearray s' = bytearray s \<and> dcenter s' = 0"
    if over: "dcenter s = 0 \<and> cursamp < center s \<and> center s < prvsamp s \<and> frame s
         \<and> MINLOWBIT < hctr s \<and> FRAMEBITCOUNT < dbit s + 1"
  proof -
    have t: "s' = (handoff ((assemble v s)\<lparr>hctr := 0\<rparr>))\<lparr>prvsamp := cursamp\<rparr>"
      unfolding s' using over by (simp add: tick_falling)
    have "0 \<le> bitpos s" "bitpos s \<le> 7" "bytecount s \<le> 8"
      "8 * bytecount s + bitpos s \<le> 64" "64 < 8 * bytecount s + bitpos s + 1"
      using counters over by (simp_all add: config_defs)
    then have "bitpos s = 0"
      by presburger
    then show ?thesis
      using over by (simp add: t handoff_fields assemble_fields)
  qed
  show ?thesis
    using counters full reset by blast
qed

theorem framing_counters_witness:
  "bytecount (run Logging (init stack9) overflow_run) = 8
   \<and> dbit (run Logging (init stack9) overflow_run) = 64
   \<and> bitpos (run Logging (init stack9) overflow_run) = 0
   \<and> bytecount (tick Logging (run Logging (init stack9) overflow_run) 0) = 0
   \<and> dbit (tick Logging (run Logging (init stack9) overflow_run) 0) = 0
   \<and> \<not> frame (tick Logging (run Logging (init stack9) overflow_run) 0)
   \<and> printed (tick Logging (run Logging (init stack9) overflow_run) 0) = [Reading 0]"
proof -
  let ?s = "run Logging (init stack9) overflow_run"
  have "\<forall>x\<in>set overflow_run. - 32768 \<le> x \<and> x \<le> 32767"
    using concrete_samples by (auto simp: overflow_run_def valid_frame_run_def)
  then have r: "reachable Logging ?s"
    by (intro reachable_main) (simp add: stack9_def)
  have over: "dcenter ?s = 0 \<and> 0 < center ?s \<and> center ?s < prvsamp ?s \<and> frame ?s
         \<and> MINLOWBIT < hctr ?s \<and> FRAMEBITCOUNT < dbit ?s + 1"
    by (simp add: overflow_state config_defs)
  have now: "bytecount ?s = 8" "dbit ?s = 64" "bitpos ?s = 0" "printed ?s = [Reading 0]"
    by (simp_all add: overflow_state)
  note W = framing_counters [OF r refl, of 0]
  have "bytecount (tick Logging ?s 0) = 0 \<and> dbit (tick Logging ?s 0) = 0
      \<and> \<not> frame (tick Logging ?s 0) \<and> printed (tick Logging ?s 0) = printed ?s"
    using W over by blast
  then show ?thesis
    using now by simp
qed

section \<open>The preamble and the start of framing (claim C7)\<close>

text \<open>
  What a decoding iteration does to the two flags, with \<open>m\<close> the state after the chain
  of edge cases: the preamble flag is newly set only on a continuing high with the counter
  above \<open>PREAMBLE_COUNT\<close>; the chain never sets the frame flag; after the chain the frame
  flag is set exactly if it was set or the counter is 0 with the preamble flag set, and
  then the preamble flag is cleared. While the counter has not wrapped around, a
  continuing high leaves the frame flag as it is.
\<close>

lemma handoff_unwrapped:
  assumes decoding: "dcenter s = 0" and s': "s' = tick v s cursamp"
    and m: "m = edge_cases v s cursamp"
  shows "(preamble m \<and> \<not> preamble s \<longrightarrow>
             center s < cursamp \<and> center s < prvsamp s \<and> PREAMBLE_COUNT < hctr m)
    \<and> (frame m \<longrightarrow> frame s)
    \<and> (0 \<le> hctr s \<and> hctr s < 2147483647 \<and> center s < cursamp \<and> center s < prvsamp s \<longrightarrow>
          frame s' = frame s)
    \<and> frame s' = (frame m \<or> hctr m = 0 \<and> preamble m)
    \<and> (hctr m = 0 \<and> preamble m \<longrightarrow> frame s' \<and> \<not> preamble s')
    \<and> (\<not> (hctr m = 0 \<and> preamble m) \<longrightarrow> preamble s' = preamble m)"
proof -
  have t: "s' = (handoff m)\<lparr>prvsamp := cursamp\<rparr>"
    unfolding s' m using decoding by (simp add: tick_decoding)
  have set_flag: "center s < cursamp \<and> center s < prvsamp s \<and> PREAMBLE_COUNT < hctr m"
    if "preamble m \<and> \<not> preamble s"
    using that unfolding m
    by (auto simp: edge_cases_def Let_def flags_assemble split: if_splits)
  have no_start: "frame m \<longrightarrow> frame s"
    unfolding m by (auto simp: edge_cases_def Let_def flags_assemble split: if_splits)
  have running: "frame s' = frame s"
    if "0 \<le> hctr s \<and> hctr s < 2147483647 \<and> center s < cursamp \<and> center s < prvsamp s"
  proof -
    have "int32_t (hctr s + 1) = hctr s + 1"
      using that by (intro int32_t_small) simp_all
    then have "hctr m = hctr s + 1" and "frame m = frame s"
      unfolding m using that by (simp_all add: edge_cases_def Let_def)
    then show ?thesis
      using that by (simp add: t handoff_fields)
  qed
  have start: "frame s' = (frame m \<or> hctr m = 0 \<and> preamble m)"
    by (simp add: t handoff_fields)
  have cleared: "frame s' \<and> \<not> preamble s'" if "hctr m = 0 \<and> preamble m"
    using that by (simp add: t handoff_fields)
  have kept: "preamble s' = preamble m" if "\<not> (hctr m = 0 \<and> preamble m)"
    using that by (auto simp: t handoff_fields)
  show ?thesis
    using set_flag no_start running start cleared kept by blast
qed

text \<open>The state after the warm-up, a low sample and a high run of up to \<open>2^32\<close> samples.\<close>

lemma high_run_state:
  assumes "0 < k" and "k \<le> 4294967296"
  shows "run Logging (init stack9) (high_run k) =
     \<lparr>bytearray = stack9, bytedata = 0, prvsamp = 400, hctr = int32_t (int k - 1),
      bitpos = 0, bytecount = 0, preamble = (PREAMBLE_COUNT < int k - 1), frame = False,
      dcenter = 0, dbit = 0, center = 200, printed = []\<rparr>"
proof -
  let ?s = "run Logging (init stack9) (warmup @ [0])"
  have split: "run Logging (init stack9) (high_run k) = run Logging ?s (replicate k 400)"
    unfolding high_run_def by (simp only: run_append append_assoc [symmetric])
  have "run Logging ?s (replicate k 400) =
      ?s\<lparr>hctr := int32_t (int (length (replicate k (400 :: int))) - 1),
         preamble := (PREAMBLE_COUNT < int (length (replicate k (400 :: int))) - 1),
         frame := (frame ?s \<or> preamble ?s),
         prvsamp := last (replicate k 400)\<rparr>"
    using assms by (intro run_high) (simp_all add: low_state)
  then show ?thesis
    using assms(1) unfolding split by (simp add: low_state)
qed

text \<open>
  C7. The claim: the preamble flag is set only while the pulse counter of a high run
  exceeds \<open>PREAMBLE_COUNT\<close>, and framing never begins while that run is still in
  progress (the comment at the hand-off reads "end of preamble, start of frame data").
  The counter wraps around: after the warm-up and a low sample, \<open>2^31 + 1\<close> high samples
  leave the flag set with the counter at \<open>-2^31\<close>; after \<open>2^32\<close> high samples the
  counter is -1 with the flag set and the frame flag clear, and one more high sample, the
  run still in progress, brings the counter to 0, sets the frame flag and clears the
  preamble flag.
\<close>

theorem handoff_after_wrap:
  "hctr (run Logging (init stack9) (high_run 2147483649)) = - 2147483648
   \<and> preamble (run Logging (init stack9) (high_run 2147483649))
   \<and> hctr (run Logging (init stack9) (high_run 4294967296)) = - 1
   \<and> preamble (run Logging (init stack9) (high_run 4294967296))
   \<and> \<not> frame (run Logging (init stack9) (high_run 4294967296))
   \<and> center (run Logging (init stack9) (high_run 4294967296))
       < prvsamp (run Logging (init stack9) (high_run 4294967296))
   \<and> center (run Logging (init stack9) (high_run 4294967296)) < 400
   \<and> frame (tick Logging (run Logging (init stack9) (high_run 4294967296)) 400)
   \<and> \<not> preamble (tick Logging (run Logging (init stack9) (high_run 4294967296)) 400)
   \<and> hctr (tick Logging (run Logging (init stack9) (high_run 4294967296)) 400) = 0"
proof -
  let ?half = "run Logging (init stack9) (high_run 2147483649)"
  let ?full = "run Logging (init stack9) (high_run 4294967296)"
  have half: "?half =
     \<lparr>bytearray = stack9, bytedata = 0, prvsamp = 400, hctr = - 2147483648,
      bitpos = 0, bytecount = 0, preamble = True, frame = False,
      dcenter = 0, dbit = 0, center = 200, printed = []\<rparr>"
    using high_run_state [of 2147483649] by (simp add: int32_t_def PREAMBLE_COUNT_def)
  have full: "?full =
     \<lparr>bytearray = stack9, bytedata = 0, prvsamp = 400, hctr = - 1,
      bitpos = 0, bytecount = 0, preamble = True, frame = False,
      dcenter = 0, dbit = 0, center = 200, printed = []\<rparr>"
    using high_run_state [of 4294967296] by (simp add: int32_t_def PREAMBLE_COUNT_def)
  have "tick Logging ?full 400 = ?full\<lparr>hctr := 0, preamble := False, frame := True, prvsamp := 400\<rparr>"
    by (rule tick_wrapped_high) (simp_all add: full int32_t_def)
  then show ?thesis
    by (simp add: half full)
qed

section \<open>The analysis mode: polarity (claim C8)\<close>

lemma pulse_loop_run_lengths:
  "pulse_loop wc xs pc sc ps ss =
     (ps @ run_lengths (\<lambda>x. wc \<le> x) xs pc, ss @ run_lengths (\<lambda>x. x < wc) xs sc)"
  by (induction xs arbitrary: pc sc ps ss) (auto simp: Let_def)


text \<open>
  C8. \<^verbatim>\<open>analyze_efergy_message\<close> installs the recalibrated center and then compares the
  third stored sample with it. If the sample lies below the center, the line printed is
  the decode of the positive-run histogram (the runs of samples at or above the center),
  under the message for positive pulses; otherwise it is the decode of the negative-run
  histogram (the runs of samples below the center), under the message for negative
  pulses. The two lists the loop builds are these histograms.
\<close>

theorem polarity_selection:
  assumes a': "a' = analyze_efergy_message estimate a"
    and stored: "stored = take (sample_store_index a) (sample_storage a)"
    and wc: "wc = estimate stored"
  shows "analysis_wavecenter a' = wc
    \<and> fst (pulse_loop wc stored 0 0 [] []) = run_lengths (\<lambda>x. wc \<le> x) stored 0
    \<and> snd (pulse_loop wc stored 0 0 [] []) = run_lengths (\<lambda>x. x < wc) stored 0
    \<and> (sample_storage a ! 2 < wc \<longrightarrow>
          shown a' = shown a @
            [case decode_bytes_from_pulse_counts (run_lengths (\<lambda>x. wc \<le> x) stored 0) of
               (n, bytes) \<Rightarrow> display_frame_data ''Decode from positive pulses: '' bytes n])
    \<and> (\<not> sample_storage a ! 2 < wc \<longrightarrow>
          shown a' = shown a @
            [case decode_bytes_from_pulse_counts (run_lengths (\<lambda>x. x < wc) stored 0) of
               (n, bytes) \<Rightarrow> display_frame_data ''Decode from negative pulses: '' bytes n])"
  unfolding a' stored wc analyze_efergy_message_def
  by (simp add: Let_def pulse_loop_run_lengths)

theorem polarity_selection_witness:
  "shown (analyze_efergy_message (\<lambda>stored. 0)
            \<lparr>sample_storage = compact_capture, sample_store_index = 643,
             analysis_wavecenter = 7, shown = []\<rparr>)
     = [FrameLine ''Decode from positive pulses: ''
          [0x09, 0x2A, 0x4C, 0x40, 0x05, 0x5A, 0x02, 0x20] 0x20 (Some (10275 / 256))]
   \<and> shown (analyze_efergy_message (\<lambda>stored. 0)
            \<lparr>sample_storage = map uminus compact_capture, sample_store_index = 643,
             analysis_wavecenter = 7, shown = []\<rparr>)
     = [FrameLine ''Decode from negative pulses: ''
          [0x09, 0x2A, 0x4C, 0x40, 0x05, 0x5A, 0x02, 0x20] 0x20 (Some (10275 / 256))]"
proof -
  let ?a = "\<lparr>sample_storage = compact_capture, sample_store_index = 643,
             analysis_wavecenter = 7, shown = []\<rparr>"
  let ?b = "\<lparr>sample_storage = map uminus compact_capture, sample_store_index = 643,
             analysis_wavecenter = 7, shown = []\<rparr>"
  let ?widths = "[5, 5, 5, 5, 9, 5, 5, 9, 5, 5, 9, 5, 9, 5, 9, 5, 5, 9, 5, 5, 9, 9, 5, 5,
                  5, 9, 5, 5, 5, 5, 5, 5, 5, 5, 5, 5, 5, 9, 5, 9, 5, 9, 5, 9, 9, 5, 9, 5,
                  5, 5, 5, 5, 5, 5, 9, 5, 5, 5, 9, 5, 5, 5, 5, 5, 5, 5, 5, 5, 5, 5, 5 :: int]"
  have third: "sample_storage ?a ! 2 < 0" "\<not> sample_storage ?b ! 2 < 0"
    by code_simp+
  have pos: "run_lengths (\<lambda>x. 0 \<le> x) (take (sample_store_index ?a) (sample_storage ?a)) 0
      = ?widths"
    by code_simp
  have neg: "run_lengths (\<lambda>x. x < 0) (take (sample_store_index ?b) (sample_storage ?b)) 0
      = ?widths"
    by code_simp
  have line: "(case decode_bytes_from_pulse_counts ?widths of
                (n, bytes) \<Rightarrow> display_frame_data msg bytes n)
      = FrameLine msg [0x09, 0x2A, 0x4C, 0x40, 0x05, 0x5A, 0x02, 0x20] 0x20 (Some (10275 / 256))"
    for msg
    by code_simp
  note A = polarity_selection [OF refl refl refl, of "\<lambda>stored. 0" ?a]
  note B = polarity_selection [OF refl refl refl, of "\<lambda>stored. 0" ?b]
  have "shown (analyze_efergy_message (\<lambda>stored. 0) ?a) = shown ?a @
            [case decode_bytes_from_pulse_counts
                (run_lengths (\<lambda>x. 0 \<le> x) (take (sample_store_index ?a) (sample_storage ?a)) 0) of
               (n, bytes) \<Rightarrow> display_frame_data ''Decode from positive pulses: '' bytes n]"
    using A third(1) by blast
  moreover have "shown (analyze_efergy_message (\<lambda>stored. 0) ?b) = shown ?b @
            [case decode_bytes_from_pulse_counts
                (run_lengths (\<lambda>x. x < 0) (take (sample_store_index ?b) (sample_storage ?b)) 0) of
               (n, bytes) \<Rightarrow> display_frame_data ''Decode from negative pulses: '' bytes n]"
    using B third(2) by blast
  ultimately show ?thesis
    unfolding pos neg line by simp
qed

section \<open>The analysis mode: the capture buffer (claim C9)\<close>

lemma capture_fill:
  assumes "sample_store_index a = i" and "length (sample_storage a) = SAMPLE_STORE_SIZE"
    and "i + length xs = SAMPLE_STORE_SIZE" and "xs \<noteq> []"
  shows "capture estimate a (xs @ later) =
           (analyze_efergy_message estimate
              (a\<lparr>sample_storage := take i (sample_storage a) @ xs,
                 sample_store_index := SAMPLE_STORE_SIZE - 1\<rparr>), later)"
  using assms
proof (induction xs arbitrary: a i)
  case Nil
  then show ?case by simp
next
  case (Cons x xs)
  let ?a1 = "a\<lparr>sample_storage := (sample_storage a)[i := x]\<rparr>"
  have i: "i < length (sample_storage a)"
    using Cons.prems by simp
  have upd: "take (Suc i) ((sample_storage a)[i := x]) = take i (sample_storage a) @ [x]"
    using i by (simp add: take_Suc_conv_app_nth)
  show ?case
  proof (cases "i < SAMPLE_STORE_SIZE - 1")
    case True
    then have ne: "xs \<noteq> []"
      using Cons.prems by auto
    have "capture estimate (?a1\<lparr>sample_store_index := Suc i\<rparr>) (xs @ later) =
           (analyze_efergy_message estimate
              ((?a1\<lparr>sample_store_index := Suc i\<rparr>)
                 \<lparr>sample_storage := take (Suc i) (sample_storage (?a1\<lparr>sample_store_index := Suc i\<rparr>)) @ xs,
                  sample_store_index := SAMPLE_STORE_SIZE - 1\<rparr>), later)"
      using Cons.prems ne by (intro Cons.IH) simp_all
    then show ?thesis
      using True Cons.prems(1) by (simp add: Let_def upd)
  next
    case False
    have "i + Suc (length xs) = SAMPLE_STORE_SIZE"
      using Cons.prems(3) by simp
    with False have both: "length xs = 0 \<and> i = SAMPLE_STORE_SIZE - 1"
      by arith
    then have "xs = []" and last: "i = SAMPLE_STORE_SIZE - 1"
      by simp_all
    have "Suc i = length ((sample_storage a)[i := x])"
      using last i Cons.prems(2) by simp
    then have "take (Suc i) ((sample_storage a)[i := x]) = (sample_storage a)[i := x]"
      by simp
    then have "(sample_storage a)[i := x] = take i (sample_storage a) @ [x]"
      using upd by simp
    moreover have "a\<lparr>sample_storage := X, sample_store_index := SAMPLE_STORE_SIZE - 1\<rparr>
        = a\<lparr>sample_storage := X\<rparr>" for X
      using Cons.prems(1) last by (cases a) simp
    ultimately show ?thesis
      using False Cons.prems(1) \<open>xs = []\<close> by (simp add: Let_def)
  qed
qed


lemma example_preamble_found: "find_preamble 0 0 0 0 (example_preamble @ rest) = rest"
  by code_simp

text \<open>
  C9. A round of the analysis loop that finds a preamble followed by at least
  \<open>SAMPLE_STORE_SIZE\<close> samples stores exactly the first \<open>SAMPLE_STORE_SIZE\<close> of them,
  each in its own slot, whatever the buffer and its index held before; the analysis runs
  on that buffer with the index at its last slot, and prints one line; the samples that
  follow are not stored and change nothing of the result: they are what the round leaves
  for the next one.
\<close>

theorem capture_bounded:
  assumes full: "length samples = SAMPLE_STORE_SIZE"
    and size: "length (sample_storage a) = SAMPLE_STORE_SIZE"
    and found: "find_preamble (analysis_wavecenter a) 0 0 0 input = samples @ later"
    and r: "r = analysis_round estimate a input"
  shows "snd r = later
    \<and> fst r = analyze_efergy_message estimate
                (a\<lparr>sample_storage := samples, sample_store_index := SAMPLE_STORE_SIZE - 1\<rparr>)
    \<and> sample_storage (fst r) = samples
    \<and> sample_store_index (fst r) = SAMPLE_STORE_SIZE - 1
    \<and> length (shown (fst r)) = length (shown a) + 1
    \<and> fst r = fst (capture estimate (a\<lparr>sample_store_index := 0\<rparr>) samples)"
proof -
  let ?a0 = "a\<lparr>sample_store_index := 0\<rparr>"
  have ne: "samples \<noteq> []"
    using full by (auto simp: analysis_config_defs)
  have fill: "capture estimate ?a0 (samples @ rest) =
           (analyze_efergy_message estimate
              (a\<lparr>sample_storage := samples, sample_store_index := SAMPLE_STORE_SIZE - 1\<rparr>), rest)"
    for rest
    using capture_fill [of ?a0 0 samples estimate rest] full size ne by simp
  have round: "r = capture estimate ?a0 (samples @ later)"
    unfolding r analysis_round_def found ..
  have kept: "sample_storage (analyze_efergy_message estimate b) = sample_storage b
      \<and> sample_store_index (analyze_efergy_message estimate b) = sample_store_index b
      \<and> length (shown (analyze_efergy_message estimate b)) = length (shown b) + 1" for b
    by (simp add: analyze_efergy_message_def Let_def split: prod.splits)
  show ?thesis
    using fill [of later] fill [of "[]"] kept by (simp add: round)
qed

theorem capture_bounded_witness:
  "snd (analysis_round (\<lambda>stored. 0) analysis_start (example_preamble @ example_capture @ [7, 8, 9]))
     = [7, 8, 9]
   \<and> sample_storage
        (fst (analysis_round (\<lambda>stored. 0) analysis_start
               (example_preamble @ example_capture @ [7, 8, 9])))
     = example_capture
   \<and> length (shown
        (fst (analysis_round (\<lambda>stored. 0) analysis_start
               (example_preamble @ example_capture @ [7, 8, 9])))) = 1"
proof -
  have full: "length example_capture = SAMPLE_STORE_SIZE"
    by code_simp
  have size: "length (sample_storage analysis_start) = SAMPLE_STORE_SIZE"
    by (simp add: analysis_start_def)
  have found: "find_preamble (analysis_wavecenter analysis_start) 0 0 0
                 (example_preamble @ example_capture @ [7, 8, 9]) = example_capture @ [7, 8, 9]"
    by (simp add: analysis_start_def example_preamble_found)
  have none: "length (shown analysis_start) = 0"
    by (simp add: analysis_start_def)
  let ?r = "analysis_round (\<lambda>stored. 0) analysis_start
              (example_preamble @ example_capture @ [7, 8, 9])"
  note W = capture_bounded [OF full size found refl, of "\<lambda>stored. 0"]
  have "snd ?r = [7, 8, 9]"
    using W by blast
  moreover have "sample_storage (fst ?r) = example_capture"
    using W by blast
  moreover have "length (shown (fst ?r)) = length (shown analysis_start) + 1"
    using W by blast
  ultimately show ?thesis
    by (simp only: none) simp
qed

section \<open>Samples equal to the wave center (claim C10)\<close>

lemma edge_cases_other:
  assumes "cursamp = center s \<or> prvsamp s = center s"
  shows "edge_cases v s cursamp = s\<lparr>hctr := 0\<rparr>"
  using assms by (auto simp: edge_cases_def)

lemma tick_at_center:
  assumes "dcenter s = 0" and "cursamp = center s \<or> prvsamp s = center s"
  shows "tick v s cursamp = (handoff (s\<lparr>hctr := 0\<rparr>))\<lparr>prvsamp := cursamp\<rparr>"
  using assms by (simp add: tick_decoding edge_cases_other)

text \<open>
  C10. On a decoding iteration where the current or the previous sample equals the wave
  center, none of the conditions of the positive edge, the continuing high and the
  negative edge holds: the chain falls through to its last branch, the pulse counter
  becomes 0 and the bit tally, the bit position, the byte count, the accumulator, the
  frame buffer and the output stay as they are. When it is the current sample that equals
  the center, the same holds on the iteration after it, whatever sample comes next: a
  high run ended by such a sample is never classified.
\<close>

theorem center_sample_discarded:
  assumes decoding: "dcenter s = 0"
    and at_center: "cursamp = center s \<or> prvsamp s = center s"
    and s': "s' = tick v s cursamp"
  shows "\<not> (center s < cursamp \<and> prvsamp s < center s)
    \<and> \<not> (center s < cursamp \<and> center s < prvsamp s)
    \<and> \<not> (cursamp < center s \<and> center s < prvsamp s)
    \<and> edge_cases v s cursamp = s\<lparr>hctr := 0\<rparr>
    \<and> hctr s' = 0 \<and> dbit s' = dbit s \<and> bitpos s' = bitpos s \<and> bytecount s' = bytecount s
    \<and> bytedata s' = bytedata s \<and> bytearray s' = bytearray s \<and> printed s' = printed s
    \<and> (cursamp = center s \<longrightarrow>
          (\<forall>next. hctr (tick v s' next) = 0 \<and> dbit (tick v s' next) = dbit s
                 \<and> bitpos (tick v s' next) = bitpos s \<and> bytecount (tick v s' next) = bytecount s
                 \<and> bytedata (tick v s' next) = bytedata s
                 \<and> bytearray (tick v s' next) = bytearray s
                 \<and> printed (tick v s' next) = printed s))"
proof -
  have none: "\<not> (center s < cursamp \<and> prvsamp s < center s)
    \<and> \<not> (center s < cursamp \<and> center s < prvsamp s)
    \<and> \<not> (cursamp < center s \<and> center s < prvsamp s)"
    using at_center by auto
  have ec: "edge_cases v s cursamp = s\<lparr>hctr := 0\<rparr>"
    using at_center by (rule edge_cases_other)
  have t: "s' = (handoff (s\<lparr>hctr := 0\<rparr>))\<lparr>prvsamp := cursamp\<rparr>"
    unfolding s' using decoding at_center by (rule tick_at_center)
  have now: "hctr s' = 0 \<and> dbit s' = dbit s \<and> bitpos s' = bitpos s \<and> bytecount s' = bytecount s
    \<and> bytedata s' = bytedata s \<and> bytearray s' = bytearray s \<and> printed s' = printed s"
    by (simp add: t handoff_fields)
  have later: "hctr (tick v s' next) = 0 \<and> dbit (tick v s' next) = dbit s
                 \<and> bitpos (tick v s' next) = bitpos s \<and> bytecount (tick v s' next) = bytecount s
                 \<and> bytedata (tick v s' next) = bytedata s
                 \<and> bytearray (tick v s' next) = bytearray s
                 \<and> printed (tick v s' next) = printed s"
    if "cursamp = center s" for "next"
  proof -
    have d: "dcenter s' = 0" and "center s' = center s" and "prvsamp s' = cursamp"
      using decoding by (simp_all add: t handoff_fields)
    then have "next = center s' \<or> prvsamp s' = center s'"
      using that by simp
    then have "tick v s' next = (handoff (s'\<lparr>hctr := 0\<rparr>))\<lparr>prvsamp := next\<rparr>"
      using d by (simp add: tick_at_center)
    then show ?thesis
      using now by (simp add: handoff_fields)
  qed
  show ?thesis
    using none ec now later by blast
qed

theorem center_sample_discarded_witness:
  "hctr (run Logging (init stack9) five_high_run) = 4
   \<and> frame (run Logging (init stack9) five_high_run)
   \<and> center (run Logging (init stack9) five_high_run) = 200
   \<and> hctr (tick Logging (run Logging (init stack9) five_high_run) 200) = 0
   \<and> dbit (tick Logging (run Logging (init stack9) five_high_run) 200) = 0
   \<and> dbit (tick Logging (tick Logging (run Logging (init stack9) five_high_run) 200) 0) = 0"
proof -
  let ?s = "run Logging (init stack9) five_high_run"
  have h: "dcenter ?s = 0" "200 = center ?s \<or> prvsamp ?s = center ?s"
    by (simp_all add: five_high_state)
  have c: "200 = center ?s"
    by (simp add: five_high_state)
  note W = center_sample_discarded [OF h refl, of Logging]
  have "hctr (tick Logging ?s 200) = 0" and "dbit (tick Logging ?s 200) = dbit ?s"
    using W by blast+
  moreover have "dbit (tick Logging (tick Logging ?s 200) 0) = dbit ?s"
    using W c by blast
  ultimately show ?thesis
    by (simp add: five_high_state)
qed

end
